theory Spec2Isabelle
  imports Complex_Main "HOL-Library.Option_ord" "HOL-Library.Multiset"
begin

section \<open>Exceptions and the random source\<close>

text \<open>
  The Python exceptions the optimizers can raise. A function that can raise returns
  \<open>error + 'a\<close>, with \<open>Inl\<close> for the exception.
\<close>

datatype error = ValueError | IndexError | StopIteration | ZeroDivisionError | AttributeError

text \<open>
  The generator behind Python's \<open>random\<close> module is an explicit state: the list of raw
  numbers it is going to produce (an exhausted list keeps producing 0). Every library
  call takes the state and returns the new one. Each call below keeps the library's
  contract: when it raises, and which values it can return; which of those values it
  returns is read off the raw numbers.
\<close>

type_synonym rng = "nat list"

definition draw :: "rng \<Rightarrow> nat \<times> rng" where
  "draw g = (case g of [] \<Rightarrow> (0, []) | n # g' \<Rightarrow> (n, g'))"

text \<open>\<open>random.randint(a, b)\<close>: an integer of \<open>[a, b]\<close>; ValueError on an empty range.\<close>

definition randint :: "int \<Rightarrow> int \<Rightarrow> rng \<Rightarrow> error + (int \<times> rng)" where
  "randint a b g =
     (if b < a then Inl ValueError
      else (case draw g of (n, g') \<Rightarrow> Inr (a + int n mod (b - a + 1), g')))"

text \<open>\<open>random.random()\<close>: a float \<open>k / 2^53\<close> of \<open>[0, 1)\<close>.\<close>

definition random_unit :: "rng \<Rightarrow> real \<times> rng" where
  "random_unit g = (case draw g of (n, g') \<Rightarrow> (real (n mod 2 ^ 53) / 2 ^ 53, g'))"

text \<open>
  \<open>random.sample(xs, k)\<close>: \<open>k\<close> elements at distinct positions of \<open>xs\<close>, in the order
  drawn; ValueError when \<open>k\<close> exceeds the length.
\<close>

fun sample_from :: "'a list \<Rightarrow> nat \<Rightarrow> rng \<Rightarrow> 'a list \<times> rng" where
  "sample_from xs 0 g = ([], g)"
| "sample_from [] (Suc k) g = ([], g)"
| "sample_from (x # xs) (Suc k) g =
     (case draw g of (n, g') \<Rightarrow>
        (let i = n mod length (x # xs) in
         (case sample_from (take i (x # xs) @ drop (Suc i) (x # xs)) k g' of
            (ys, g'') \<Rightarrow> ((x # xs) ! i # ys, g''))))"

definition sample :: "'a list \<Rightarrow> nat \<Rightarrow> rng \<Rightarrow> error + ('a list \<times> rng)" where
  "sample xs k g = (if length xs < k then Inl ValueError else Inr (sample_from xs k g))"

text \<open>
  Python's \<open>round(x, n)\<close> on a float: the nearest multiple of \<open>10^-n\<close>, a tie going to
  the even one. Floats are modelled by the reals throughout.
\<close>

definition round_half_even :: "real \<Rightarrow> int" where
  "round_half_even x =
     (let f = \<lfloor>x\<rfloor>; r = x - of_int f
      in if r < 1 / 2 then f else if 1 / 2 < r then f + 1 else if even f then f else f + 1)"

definition py_round :: "real \<Rightarrow> nat \<Rightarrow> real" where
  "py_round x n = of_int (round_half_even (x * 10 ^ n)) / 10 ^ n"

section \<open>The problem model (genetic\_algorithm.py)\<close>

text \<open>
  The request's dictionaries: a stop is \<open>{id, location: {lat, lng}, students?}\<close>, a bus
  is \<open>{id, capacity}\<close>. \<open>students\<close> may be absent (\<open>s.get('students', 1)\<close>).
\<close>

record stop_dict =
  sd_id :: int
  sd_lat :: real
  sd_lng :: real
  sd_students :: "int option"

record bus_dict =
  bd_id :: int
  bd_capacity :: int

text \<open>The dataclasses \<open>Stop\<close>, \<open>Bus\<close> and \<open>Route\<close>.\<close>

record Stop =
  stop_id :: int
  location :: "real \<times> real"
  students :: int
  time_window :: "int \<times> int"

record Bus =
  bus_ident :: int
  capacity :: int
  fuel_efficiency :: real

record Route =
  bus_id :: int
  stops :: "int list"
  total_distance :: real
  total_time :: int
  fitness :: real

definition mk_Stop :: "int \<Rightarrow> real \<times> real \<Rightarrow> int \<Rightarrow> Stop" where
  "mk_Stop i loc n = \<lparr>stop_id = i, location = loc, students = n, time_window = (0, 1440)\<rparr>"

definition mk_Bus :: "int \<Rightarrow> int \<Rightarrow> Bus" where
  "mk_Bus i c = \<lparr>bus_ident = i, capacity = c, fuel_efficiency = 8\<rparr>"

definition mk_Route :: "int \<Rightarrow> int list \<Rightarrow> Route" where
  "mk_Route b ss = \<lparr>bus_id = b, stops = ss, total_distance = 0, total_time = 0, fitness = 0\<rparr>"

text \<open>The optimizer object: the fields \<open>__init__\<close> sets.\<close>

record GeneticAlgorithmOptimizer =
  population_size :: nat
  generations :: nat
  mutation_rate :: real
  crossover_rate :: real
  distance_weight :: real
  time_weight :: real
  capacity_weight :: real

definition ga_init :: "nat \<Rightarrow> nat \<Rightarrow> real \<Rightarrow> real \<Rightarrow> GeneticAlgorithmOptimizer" where
  "ga_init ps gens mr cr =
     \<lparr>population_size = ps, generations = gens, mutation_rate = mr, crossover_rate = cr,
      distance_weight = 4 / 10, time_weight = 3 / 10, capacity_weight = 3 / 10\<rparr>"

definition ga_default :: GeneticAlgorithmOptimizer where
  "ga_default = ga_init 50 100 (1 / 10) (8 / 10)"

section \<open>Geometry and fitness\<close>

definition radians :: "real \<Rightarrow> real" where
  "radians x = x * pi / 180"

definition haversine_distance :: "real \<times> real \<Rightarrow> real \<times> real \<Rightarrow> real" where
  "haversine_distance loc1 loc2 =
     (let lat1 = radians (fst loc1); lon1 = radians (snd loc1);
          lat2 = radians (fst loc2); lon2 = radians (snd loc2);
          dlat = lat2 - lat1;
          dlon = lon2 - lon1;
          a = (sin (dlat / 2))\<^sup>2 + cos lat1 * cos lat2 * (sin (dlon / 2))\<^sup>2;
          c = 2 * arcsin (sqrt a)
      in 6371 * c)"

text \<open>\<open>next(s for s in stops if s.id == i)\<close>: the first match, StopIteration without one.\<close>

definition find_stop :: "Stop list \<Rightarrow> int \<Rightarrow> error + Stop" where
  "find_stop sts i =
     (case find (\<lambda>s. stop_id s = i) sts of None \<Rightarrow> Inl StopIteration | Some s \<Rightarrow> Inr s)"

definition find_bus :: "Bus list \<Rightarrow> int \<Rightarrow> error + Bus" where
  "find_bus bs i =
     (case find (\<lambda>b. bus_ident b = i) bs of None \<Rightarrow> Inl StopIteration | Some b \<Rightarrow> Inr b)"

text \<open>The loop \<open>for i in range(len(route.stops) - 1)\<close> of \<open>_calculate_total_distance\<close>.\<close>

fun distance_loop :: "Stop list \<Rightarrow> int list \<Rightarrow> nat list \<Rightarrow> real \<Rightarrow> error + real" where
  "distance_loop sts rs [] acc = Inr acc"
| "distance_loop sts rs (i # is) acc =
     (case find_stop sts (rs ! i) of
        Inl e \<Rightarrow> Inl e
      | Inr stop1 \<Rightarrow>
          (case find_stop sts (rs ! (i + 1)) of
             Inl e \<Rightarrow> Inl e
           | Inr stop2 \<Rightarrow>
               distance_loop sts rs is
                 (acc + haversine_distance (location stop1) (location stop2))))"

definition calculate_total_distance :: "Route \<Rightarrow> Stop list \<Rightarrow> error + real" where
  "calculate_total_distance route sts =
     (if length (stops route) < 2 then Inr 0
      else distance_loop sts (stops route) [0..<length (stops route) - 1] 0)"

text \<open>\<open>sum(s.students for s in stops if s.id in route.stops)\<close>.\<close>

definition total_students :: "Route \<Rightarrow> Stop list \<Rightarrow> int" where
  "total_students route sts =
     sum_list (map students (filter (\<lambda>s. stop_id s \<in> set (stops route)) sts))"

definition calculate_fitness ::
  "GeneticAlgorithmOptimizer \<Rightarrow> Route \<Rightarrow> Stop list \<Rightarrow> Bus list \<Rightarrow> error + real" where
  "calculate_fitness self route sts bs =
     (case calculate_total_distance route sts of
        Inl e \<Rightarrow> Inl e
      | Inr distance \<Rightarrow>
          (let time = distance / 30 * 60 in
           (case find_bus bs (bus_id route) of
              Inl e \<Rightarrow> Inl e
            | Inr bus \<Rightarrow>
                if capacity bus = 0 then Inl ZeroDivisionError
                else
                  (let capacity_util =
                         min (real_of_int (total_students route sts) / real_of_int (capacity bus)) 1;
                       distance_score = 1 / (1 + distance / 100);
                       time_score = 1 / (1 + time / 60);
                       capacity_score = capacity_util
                   in Inr (distance_weight self * distance_score
                           + time_weight self * time_score
                           + capacity_weight self * capacity_score)))))"


section \<open>Genetic operators\<close>

text \<open>
  \<open>_tournament_selection\<close>: \<open>max(tournament, key=fitness)\<close> keeps the first of the
  best; \<open>max\<close> of an empty sequence raises ValueError.
\<close>

fun max_by_fitness :: "Route \<Rightarrow> Route list \<Rightarrow> Route" where
  "max_by_fitness best [] = best"
| "max_by_fitness best (r # rs) = max_by_fitness (if fitness best < fitness r then r else best) rs"

definition tournament_selection ::
  "Route list \<Rightarrow> nat \<Rightarrow> rng \<Rightarrow> error + (Route \<times> rng)" where
  "tournament_selection pop tournament_size g =
     (case sample pop tournament_size g of
        Inl e \<Rightarrow> Inl e
      | Inr (tournament, g') \<Rightarrow>
          (case tournament of
             [] \<Rightarrow> Inl ValueError
           | r # rs \<Rightarrow> Inr (max_by_fitness r rs, g')))"

text \<open>
  The two filling loops of \<open>_crossover\<close>: a stop of the other parent is appended when
  the child does not hold it yet and the child is shorter than its own parent.
\<close>

fun fill_child :: "int list \<Rightarrow> nat \<Rightarrow> int list \<Rightarrow> int list" where
  "fill_child child limit [] = child"
| "fill_child child limit (s # ss) =
     fill_child (if s \<notin> set child \<and> length child < limit then child @ [s] else child) limit ss"

text \<open>The slice \<open>xs[start:end]\<close> for \<open>0 \<le> start\<close>, \<open>0 \<le> end\<close>.\<close>

definition slice :: "'a list \<Rightarrow> nat \<Rightarrow> nat \<Rightarrow> 'a list" where
  "slice xs start end' = drop start (take end' xs)"

text \<open>
  \<open>start, end = sorted(random.sample(range(size), 2))\<close>; unpacking anything but two
  values raises ValueError.
\<close>

definition sorted_pair :: "nat \<Rightarrow> rng \<Rightarrow> error + ((nat \<times> nat) \<times> rng)" where
  "sorted_pair size' g =
     (case sample [0..<size'] 2 g of
        Inl e \<Rightarrow> Inl e
      | Inr (picked, g') \<Rightarrow>
          (case picked of
             [i, j] \<Rightarrow> Inr ((min i j, max i j), g')
           | _ \<Rightarrow> Inl ValueError))"

definition crossover_at :: "nat \<Rightarrow> nat \<Rightarrow> Route \<Rightarrow> Route \<Rightarrow> Route \<times> Route" where
  "crossover_at start end' parent1 parent2 =
     (let child1_stops = fill_child (slice (stops parent1) start end')
                           (length (stops parent1)) (stops parent2);
          child2_stops = fill_child (slice (stops parent2) start end')
                           (length (stops parent2)) (stops parent1)
      in (mk_Route (bus_id parent1) child1_stops, mk_Route (bus_id parent2) child2_stops))"

definition crossover :: "Route \<Rightarrow> Route \<Rightarrow> rng \<Rightarrow> error + ((Route \<times> Route) \<times> rng)" where
  "crossover parent1 parent2 g =
     (if length (stops parent1) < 2 \<or> length (stops parent2) < 2 then Inr ((parent1, parent2), g)
      else
        (case sorted_pair (min (length (stops parent1)) (length (stops parent2))) g of
           Inl e \<Rightarrow> Inl e
         | Inr ((start, end'), g') \<Rightarrow> Inr (crossover_at start end' parent1 parent2, g')))"

text \<open>
  \<open>_mutate\<close>: \<open>i, j = random.sample(range(len), 2)\<close>, then the tuple assignment
  \<open>m[i], m[j] = m[j], m[i]\<close> on a copy.
\<close>

definition mutate_at :: "nat \<Rightarrow> nat \<Rightarrow> Route \<Rightarrow> Route" where
  "mutate_at i j route =
     mk_Route (bus_id route) ((stops route)[i := stops route ! j, j := stops route ! i])"

definition mutate :: "Route \<Rightarrow> rng \<Rightarrow> error + (Route \<times> rng)" where
  "mutate route g =
     (if length (stops route) < 2 then Inr (route, g)
      else
        (case sample [0..<length (stops route)] 2 g of
           Inl e \<Rightarrow> Inl e
         | Inr (picked, g') \<Rightarrow>
             (case picked of
                [i, j] \<Rightarrow> Inr (mutate_at i j route, g')
              | _ \<Rightarrow> Inl ValueError)))"

section \<open>The generational search\<close>

text \<open>\<open>_initialize_population\<close>: the inner loop over the buses, then the outer loop.\<close>

fun init_buses ::
  "int list \<Rightarrow> Bus list \<Rightarrow> Route list \<Rightarrow> rng \<Rightarrow> error + (Route list \<times> rng)" where
  "init_buses stop_ids [] pop g = Inr (pop, g)"
| "init_buses stop_ids (bus # bs) pop g =
     (case randint 3 (int (length stop_ids)) g of
        Inl e \<Rightarrow> Inl e
      | Inr (k, g1) \<Rightarrow>
          (case sample stop_ids (min (length stop_ids) (nat k)) g1 of
             Inl e \<Rightarrow> Inl e
           | Inr (route_stops, g2) \<Rightarrow>
               init_buses stop_ids bs (pop @ [mk_Route (bus_ident bus) route_stops]) g2))"

fun init_rounds ::
  "nat \<Rightarrow> int list \<Rightarrow> Bus list \<Rightarrow> Route list \<Rightarrow> rng \<Rightarrow> error + (Route list \<times> rng)" where
  "init_rounds 0 stop_ids bs pop g = Inr (pop, g)"
| "init_rounds (Suc n) stop_ids bs pop g =
     (case init_buses stop_ids bs pop g of
        Inl e \<Rightarrow> Inl e
      | Inr (pop', g') \<Rightarrow> init_rounds n stop_ids bs pop' g')"

definition initialize_population ::
  "GeneticAlgorithmOptimizer \<Rightarrow> Stop list \<Rightarrow> Bus list \<Rightarrow> rng \<Rightarrow> error + (Route list \<times> rng)" where
  "initialize_population self sts bs g =
     (case init_rounds (population_size self) (map stop_id sts) bs [] g of
        Inl e \<Rightarrow> Inl e
      | Inr (pop, g') \<Rightarrow> Inr (take (population_size self) pop, g'))"

text \<open>\<open>for route in population: route.fitness = self._calculate_fitness(...)\<close>.\<close>

fun evaluate_population ::
  "GeneticAlgorithmOptimizer \<Rightarrow> Stop list \<Rightarrow> Bus list \<Rightarrow> Route list \<Rightarrow> error + Route list" where
  "evaluate_population self sts bs [] = Inr []"
| "evaluate_population self sts bs (route # rest) =
     (case calculate_fitness self route sts bs of
        Inl e \<Rightarrow> Inl e
      | Inr f \<Rightarrow>
          (case evaluate_population self sts bs rest of
             Inl e \<Rightarrow> Inl e
           | Inr rest' \<Rightarrow> Inr (route\<lparr>fitness := f\<rparr> # rest')))"

text \<open>
  The \<open>while len(new_population) < self.population_size\<close> loop: two tournaments, an
  optional crossover, two optional mutations, two children appended.
\<close>

function reproduce ::
  "GeneticAlgorithmOptimizer \<Rightarrow> Route list \<Rightarrow> Route list \<Rightarrow> rng \<Rightarrow> error + (Route list \<times> rng)"
  where
  "reproduce self pop new_population g =
     (if length new_population < population_size self then
        (case tournament_selection pop 3 g of
           Inl e \<Rightarrow> Inl e
         | Inr (parent1, g1) \<Rightarrow>
        (case tournament_selection pop 3 g1 of
           Inl e \<Rightarrow> Inl e
         | Inr (parent2, g2) \<Rightarrow>
        (case random_unit g2 of (u, g3) \<Rightarrow>
        (case (if u < crossover_rate self then crossover parent1 parent2 g3
               else Inr ((parent1, parent2), g3)) of
           Inl e \<Rightarrow> Inl e
         | Inr ((child1, child2), g4) \<Rightarrow>
        (case random_unit g4 of (u1, g5) \<Rightarrow>
        (case (if u1 < mutation_rate self then mutate child1 g5 else Inr (child1, g5)) of
           Inl e \<Rightarrow> Inl e
         | Inr (child1', g6) \<Rightarrow>
        (case random_unit g6 of (u2, g7) \<Rightarrow>
        (case (if u2 < mutation_rate self then mutate child2 g7 else Inr (child2, g7)) of
           Inl e \<Rightarrow> Inl e
         | Inr (child2', g8) \<Rightarrow>
             reproduce self pop (new_population @ [child1', child2']) g8))))))))
      else Inr (new_population, g))"
  by pat_completeness auto
termination
  by (relation "measure (\<lambda>(self, pop, new_population, g). population_size self - length new_population)")
    auto

text \<open>
  The state of the loop over the generations. \<open>best_fitness\<close> starts at
  \<open>float('-inf')\<close>, which is \<open>None\<close> here: \<open>None\<close> is below every \<open>Some x\<close>.
\<close>

record ga_state =
  population :: "Route list"
  best_solution :: "Route option"
  best_fitness :: "real option"
  rng_state :: rng

definition generation_step ::
  "GeneticAlgorithmOptimizer \<Rightarrow> Stop list \<Rightarrow> Bus list \<Rightarrow> ga_state \<Rightarrow> error + ga_state" where
  "generation_step self sts bs s =
     (case evaluate_population self sts bs (population s) of
        Inl e \<Rightarrow> Inl e
      | Inr evaluated \<Rightarrow>
          (let ranked = sort_key (\<lambda>r. - fitness r) evaluated in
           (case ranked of
              [] \<Rightarrow> Inl IndexError
            | leader # _ \<Rightarrow>
                (let improved = (best_fitness s < Some (fitness leader));
                     best_fitness' = (if improved then Some (fitness leader) else best_fitness s);
                     best_solution' = (if improved then Some leader else best_solution s)
                 in (case reproduce self ranked (take 2 ranked) (rng_state s) of
                       Inl e \<Rightarrow> Inl e
                     | Inr (new_population, g') \<Rightarrow>
                         Inr \<lparr>population = take (population_size self) new_population,
                              best_solution = best_solution',
                              best_fitness = best_fitness',
                              rng_state = g'\<rparr>)))))"

fun run_generations ::
  "nat \<Rightarrow> GeneticAlgorithmOptimizer \<Rightarrow> Stop list \<Rightarrow> Bus list \<Rightarrow> ga_state \<Rightarrow> error + ga_state"
  where
  "run_generations 0 self sts bs s = Inr s"
| "run_generations (Suc n) self sts bs s =
     (case generation_step self sts bs s of
        Inl e \<Rightarrow> Inl e
      | Inr s' \<Rightarrow> run_generations n self sts bs s')"


section \<open>Results\<close>

text \<open>
  The result dictionaries. \<open>metrics\<close> is a dictionary from key to number; a key that
  an optimizer does not write is absent. The keys only one optimizer writes
  (\<open>fitness_score\<close>, \<open>rl_reward\<close>, \<open>generations\<close>, \<open>final_fitness\<close>) and the keys the
  hybrid optimizer adds later are optional fields.
\<close>

record constraints =
  max_time :: "real option"
  max_distance :: "real option"

record formatted_stop =
  fs_id :: int
  fs_location :: "real \<times> real"
  fs_sequence :: nat

record formatted_route =
  fr_bus_id :: int
  fr_stops :: "formatted_stop list"
  fitness_score :: "real option"
  rl_reward :: "real option"

record result =
  routes :: "formatted_route list"
  metrics :: "string \<rightharpoonup> real"
  generations_run :: "nat option"
  final_fitness :: "real option option"
  algorithm_used :: "string option"
  heuristics_applied :: "string list option"
  optimization_approach :: "string option"

definition to_Stop :: "stop_dict \<Rightarrow> Stop" where
  "to_Stop s =
     mk_Stop (sd_id s) (sd_lat s, sd_lng s) (case sd_students s of None \<Rightarrow> 1 | Some n \<Rightarrow> n)"

definition to_Bus :: "bus_dict \<Rightarrow> Bus" where
  "to_Bus b = mk_Bus (bd_id b) (bd_capacity b)"

text \<open>
  \<open>_calculate_route_metrics\<close>. The route is \<open>None\<close> when no generation ran; reading
  \<open>route.stops\<close> then raises AttributeError.
\<close>

definition calculate_route_metrics ::
  "Route option \<Rightarrow> Stop list \<Rightarrow> Bus list \<Rightarrow> error + (string \<rightharpoonup> real)" where
  "calculate_route_metrics route_opt sts bs =
     (case route_opt of
        None \<Rightarrow> Inl AttributeError
      | Some route \<Rightarrow>
          (case calculate_total_distance route sts of
             Inl e \<Rightarrow> Inl e
           | Inr distance \<Rightarrow>
               (let time = distance / 30 * 60 in
                (case find_bus bs (bus_id route) of
                   Inl e \<Rightarrow> Inl e
                 | Inr bus \<Rightarrow>
                     if fuel_efficiency bus = 0 then Inl ZeroDivisionError
                     else
                       (let fuel = distance / fuel_efficiency bus;
                            served = total_students route sts
                        in if capacity bus = 0 then Inl ZeroDivisionError
                           else Inr [''total_distance_km'' \<mapsto> py_round distance 2,
                                     ''estimated_time_minutes'' \<mapsto> py_round time 2,
                                     ''fuel_consumption_liters'' \<mapsto> py_round fuel 2,
                                     ''students_served'' \<mapsto> real_of_int served,
                                     ''capacity_utilization'' \<mapsto>
                                        py_round (real_of_int served / real_of_int (capacity bus) * 100) 2,
                                     ''stops_count'' \<mapsto> real (length (stops route))])))))"

text \<open>\<open>_format_routes\<close>: the comprehension over \<open>enumerate(route.stops)\<close>, then the routes.\<close>

fun format_stops :: "Stop list \<Rightarrow> nat \<Rightarrow> int list \<Rightarrow> error + formatted_stop list" where
  "format_stops sts idx [] = Inr []"
| "format_stops sts idx (i # rest) =
     (case find_stop sts i of
        Inl e \<Rightarrow> Inl e
      | Inr s \<Rightarrow>
          (case format_stops sts (Suc idx) rest of
             Inl e \<Rightarrow> Inl e
           | Inr rest' \<Rightarrow>
               Inr (\<lparr>fs_id = i, fs_location = location s, fs_sequence = idx\<rparr> # rest')))"

fun format_routes :: "Route list \<Rightarrow> Stop list \<Rightarrow> error + formatted_route list" where
  "format_routes [] sts = Inr []"
| "format_routes (route # rest) sts =
     (case format_stops sts 0 (stops route) of
        Inl e \<Rightarrow> Inl e
      | Inr fstops \<Rightarrow>
          (case format_routes rest sts of
             Inl e \<Rightarrow> Inl e
           | Inr rest' \<Rightarrow>
               Inr (\<lparr>fr_bus_id = bus_id route, fr_stops = fstops,
                     fitness_score = Some (py_round (fitness route) 4),
                     rl_reward = None\<rparr> # rest')))"

text \<open>\<open>GeneticAlgorithmOptimizer.optimize\<close>.\<close>

definition initial_state :: "Route list \<Rightarrow> rng \<Rightarrow> ga_state" where
  "initial_state pop g =
     \<lparr>population = pop, best_solution = None, best_fitness = None, rng_state = g\<rparr>"

definition optimize ::
  "GeneticAlgorithmOptimizer \<Rightarrow> stop_dict list \<Rightarrow> bus_dict list \<Rightarrow> constraints \<Rightarrow> rng
     \<Rightarrow> error + (result \<times> rng)" where
  "optimize self stop_dicts bus_dicts cons g =
     (let stop_objects = map to_Stop stop_dicts;
          bus_objects = map to_Bus bus_dicts
      in (case initialize_population self stop_objects bus_objects g of
            Inl e \<Rightarrow> Inl e
          | Inr (pop, g1) \<Rightarrow>
          (case run_generations (generations self) self stop_objects bus_objects
                  (initial_state pop g1) of
            Inl e \<Rightarrow> Inl e
          | Inr s \<Rightarrow>
          (case calculate_route_metrics (best_solution s) stop_objects bus_objects of
            Inl e \<Rightarrow> Inl e
          | Inr m \<Rightarrow>
          (case best_solution s of
            None \<Rightarrow> Inl AttributeError
          | Some best \<Rightarrow>
          (case format_routes [best] stop_objects of
            Inl e \<Rightarrow> Inl e
          | Inr rs \<Rightarrow>
              Inr (\<lparr>routes = rs, metrics = m,
                    generations_run = Some (generations self),
                    final_fitness = Some (best_fitness s),
                    algorithm_used = None, heuristics_applied = None,
                    optimization_approach = None\<rparr>,
                   rng_state s)))))))"

section \<open>The Q-learning agent (reinforcement\_learning.py)\<close>

text \<open>
  An experience is the tuple \<open>(state, action, reward, next_state, done)\<close>. The table's
  key is the state vector rounded to two places; a row holds one value per action.
\<close>

record experience =
  exp_state :: "real list"
  exp_action :: nat
  exp_reward :: real
  exp_next_state :: "real list"
  exp_done :: bool

record DQN =
  state_size :: nat
  action_size :: nat
  memory :: "experience list"
  gamma :: real
  epsilon :: real
  epsilon_min :: real
  epsilon_decay :: real
  learning_rate :: real
  q_table :: "real list \<rightharpoonup> real list"

definition dqn_init :: "nat \<Rightarrow> nat \<Rightarrow> DQN" where
  "dqn_init n_state n_action =
     \<lparr>state_size = n_state, action_size = n_action, memory = [], gamma = 95 / 100, epsilon = 1,
      epsilon_min = 1 / 100, epsilon_decay = 995 / 1000, learning_rate = 1 / 1000,
      q_table = Map.empty\<rparr>"

text \<open>\<open>remember\<close>: the memory is a \<open>deque(maxlen=2000)\<close>, which drops its oldest entry.\<close>

definition remember :: "DQN \<Rightarrow> experience \<Rightarrow> DQN" where
  "remember d e =
     d\<lparr>memory := (let m = memory d @ [e] in drop (length m - 2000) m)\<rparr>"

definition state_key :: "real list \<Rightarrow> real list" where
  "state_key v = map (\<lambda>x. py_round x 2) v"

definition row_of :: "nat \<Rightarrow> (real list \<rightharpoonup> real list) \<Rightarrow> real list \<Rightarrow> real list" where
  "row_of n q k = (case q k of None \<Rightarrow> replicate n 0 | Some row \<Rightarrow> row)"

text \<open>
  One pass of the training loop. \<open>np.max\<close> of an empty row raises ValueError; writing
  \<open>row[action]\<close> outside the row raises IndexError.
\<close>

definition train_one ::
  "nat \<Rightarrow> real \<Rightarrow> (real list \<rightharpoonup> real list) \<Rightarrow> experience
     \<Rightarrow> error + (real list \<rightharpoonup> real list)" where
  "train_one n gam q e =
     (let sk = state_key (exp_state e);
          nk = state_key (exp_next_state e);
          q1 = q(sk \<mapsto> row_of n q sk);
          q2 = q1(nk \<mapsto> row_of n q1 nk)
      in if \<not> exp_done e \<and> row_of n q2 nk = [] then Inl ValueError
         else
           (let target = (if exp_done e then exp_reward e
                          else exp_reward e + gam * Max (set (row_of n q2 nk)))
            in if length (row_of n q2 sk) \<le> exp_action e then Inl IndexError
               else Inr (q2(sk \<mapsto> (row_of n q2 sk)[exp_action e := target]))))"

fun train :: "nat \<Rightarrow> real \<Rightarrow> (real list \<rightharpoonup> real list) \<Rightarrow> experience list
     \<Rightarrow> error + (real list \<rightharpoonup> real list)" where
  "train n gam q [] = Inr q"
| "train n gam q (e # es) =
     (case train_one n gam q e of Inl err \<Rightarrow> Inl err | Inr q' \<Rightarrow> train n gam q' es)"

definition replay :: "DQN \<Rightarrow> nat \<Rightarrow> rng \<Rightarrow> error + (DQN \<times> rng)" where
  "replay d batch_size g =
     (if length (memory d) < batch_size then Inr (d, g)
      else
        (case sample (memory d) batch_size g of
           Inl e \<Rightarrow> Inl e
         | Inr (minibatch, g') \<Rightarrow>
             (case train (action_size d) (gamma d) (q_table d) minibatch of
                Inl e \<Rightarrow> Inl e
              | Inr q' \<Rightarrow>
                  Inr (d\<lparr>q_table := q',
                         epsilon := (if epsilon_min d < epsilon d
                                     then epsilon d * epsilon_decay d else epsilon d)\<rparr>,
                       g'))))"

text \<open>A sequence of calls on one agent; an exception ends it.\<close>

datatype agent_op = Remember experience | Replay nat

fun agent_run :: "DQN \<Rightarrow> rng \<Rightarrow> agent_op list \<Rightarrow> error + (DQN \<times> rng)" where
  "agent_run d g [] = Inr (d, g)"
| "agent_run d g (Remember e # ops) = agent_run (remember d e) g ops"
| "agent_run d g (Replay n # ops) =
     (case replay d n g of Inl e \<Rightarrow> Inl e | Inr (d', g') \<Rightarrow> agent_run d' g' ops)"

section \<open>Formatting the learner's result\<close>

definition calculate_distance :: "real \<times> real \<Rightarrow> real \<times> real \<Rightarrow> real" where
  "calculate_distance loc1 loc2 =
     sqrt ((fst loc2 - fst loc1)\<^sup>2 + (snd loc2 - snd loc1)\<^sup>2) * 111"

definition find_stop_dict :: "stop_dict list \<Rightarrow> int \<Rightarrow> error + stop_dict" where
  "find_stop_dict sds i =
     (case find (\<lambda>s. sd_id s = i) sds of None \<Rightarrow> Inl StopIteration | Some s \<Rightarrow> Inr s)"

fun rl_distance_loop ::
  "stop_dict list \<Rightarrow> int list \<Rightarrow> nat list \<Rightarrow> real \<Rightarrow> error + real" where
  "rl_distance_loop sds rs [] acc = Inr acc"
| "rl_distance_loop sds rs (i # is) acc =
     (case find_stop_dict sds (rs ! i) of
        Inl e \<Rightarrow> Inl e
      | Inr stop1 \<Rightarrow>
          (case find_stop_dict sds (rs ! (i + 1)) of
             Inl e \<Rightarrow> Inl e
           | Inr stop2 \<Rightarrow>
               rl_distance_loop sds rs is
                 (acc + calculate_distance (sd_lat stop1, sd_lng stop1) (sd_lat stop2, sd_lng stop2))))"

fun rl_format_stops :: "stop_dict list \<Rightarrow> nat \<Rightarrow> int list \<Rightarrow> error + formatted_stop list" where
  "rl_format_stops sds idx [] = Inr []"
| "rl_format_stops sds idx (i # rest) =
     (case find_stop_dict sds i of
        Inl e \<Rightarrow> Inl e
      | Inr s \<Rightarrow>
          (case rl_format_stops sds (Suc idx) rest of
             Inl e \<Rightarrow> Inl e
           | Inr rest' \<Rightarrow>
               Inr (\<lparr>fs_id = i, fs_location = (sd_lat s, sd_lng s), fs_sequence = idx\<rparr> # rest')))"

definition empty_result :: result where
  "empty_result =
     \<lparr>routes = [], metrics = Map.empty, generations_run = None, final_fitness = None,
      algorithm_used = None, heuristics_applied = None, optimization_approach = None\<rparr>"

text \<open>
  \<open>RLOptimizer._format_results\<close>; \<open>episodes\<close> is the optimizer's field. The route is
  \<open>None\<close> when no episode was recorded.
\<close>

definition format_results ::
  "nat \<Rightarrow> int list option \<Rightarrow> stop_dict list \<Rightarrow> bus_dict list \<Rightarrow> real \<Rightarrow> error + result" where
  "format_results episodes route_opt sds buses reward =
     (case route_opt of
        None \<Rightarrow> Inr empty_result
      | Some route \<Rightarrow>
          (case buses of
             [] \<Rightarrow> Inr empty_result
           | bus # _ \<Rightarrow>
               if route = [] then Inr empty_result
               else
                 (case rl_distance_loop sds route [0..<length route - 1] 0 of
                    Inl e \<Rightarrow> Inl e
                  | Inr total_km \<Rightarrow>
                      (case rl_format_stops sds 0 route of
                         Inl e \<Rightarrow> Inl e
                       | Inr fstops \<Rightarrow>
                           Inr \<lparr>routes = [\<lparr>fr_bus_id = bd_id bus, fr_stops = fstops,
                                            fitness_score = None,
                                            rl_reward = Some (py_round reward 2)\<rparr>],
                                metrics = [''total_distance_km'' \<mapsto> py_round total_km 2,
                                           ''estimated_time_minutes'' \<mapsto> real (length route * 5),
                                           ''stops_count'' \<mapsto> real (length route),
                                           ''rl_episodes'' \<mapsto> real episodes,
                                           ''final_reward'' \<mapsto> py_round reward 2],
                                generations_run = None, final_fitness = None,
                                algorithm_used = None, heuristics_applied = None,
                                optimization_approach = None\<rparr>))))"

section \<open>The hybrid optimizer (route\_optimizer.py)\<close>

text \<open>
  The two optimizers are fields of the object; each \<open>optimize\<close> method takes the request
  and the state of the world it works on (the random source, the agent) and returns
  its result with the new state, or raises.
\<close>

type_synonym 'w optimizer =
  "stop_dict list \<Rightarrow> bus_dict list \<Rightarrow> constraints \<Rightarrow> 'w \<Rightarrow> error + (result \<times> 'w)"

record 'w RouteOptimizer =
  ga_optimizer :: "'w optimizer"
  rl_optimizer :: "'w optimizer"

definition apply_heuristics :: "result \<Rightarrow> result" where
  "apply_heuristics r =
     r\<lparr>heuristics_applied :=
         Some [''time_window_validation'', ''load_balancing'', ''route_smoothing''],
       optimization_approach := Some ''hybrid''\<rparr>"

text \<open>
  \<open>rl_score < ga_score\<close>, each read with \<open>.get('total_distance_km', float('inf'))\<close>:
  an absent key is \<open>None\<close> and stands for plus infinity.
\<close>

definition score_less :: "real option \<Rightarrow> real option \<Rightarrow> bool" where
  "score_less rl_score ga_score =
     (case rl_score of
        None \<Rightarrow> False
      | Some x \<Rightarrow> (case ga_score of None \<Rightarrow> True | Some y \<Rightarrow> x < y))"

definition hybrid_optimize ::
  "'w RouteOptimizer \<Rightarrow> stop_dict list \<Rightarrow> bus_dict list \<Rightarrow> constraints \<Rightarrow> 'w
     \<Rightarrow> error + (result \<times> 'w)" where
  "hybrid_optimize self stop_dicts bus_dicts cons w =
     (case ga_optimizer self stop_dicts bus_dicts cons w of
        Inl e \<Rightarrow> Inl e
      | Inr (ga_result, w1) \<Rightarrow>
          if 20 < length stop_dicts then
            (case rl_optimizer self stop_dicts bus_dicts cons w1 of
               Inl e \<Rightarrow> Inl e
             | Inr (rl_result, w2) \<Rightarrow>
                 (let ga_score = metrics ga_result ''total_distance_km'';
                      rl_score = metrics rl_result ''total_distance_km''
                  in if score_less rl_score ga_score
                     then Inr (apply_heuristics (rl_result\<lparr>algorithm_used := Some ''rl''\<rparr>), w2)
                     else Inr (apply_heuristics (ga_result\<lparr>algorithm_used := Some ''genetic''\<rparr>), w2)))
          else Inr (apply_heuristics (ga_result\<lparr>algorithm_used := Some ''genetic''\<rparr>), w1))"

text \<open>
  \<open>RouteOptimizer.__init__\<close>: the genetic optimizer with a population of 30 and 50
  generations, working on the random source of the world.
\<close>

definition route_optimizer_init :: "(rng \<times> 'a) optimizer \<Rightarrow> (rng \<times> 'a) RouteOptimizer" where
  "route_optimizer_init rl =
     \<lparr>ga_optimizer =
        (\<lambda>stop_dicts bus_dicts cons w.
           (case optimize (ga_init 30 50 (1 / 10) (8 / 10)) stop_dicts bus_dicts cons (fst w) of
              Inl e \<Rightarrow> Inl e
            | Inr (r, g') \<Rightarrow> Inr (r, (g', snd w)))),
      rl_optimizer = rl\<rparr>"

section \<open>The route length the fitness is stated with\<close>

text \<open>
  The sum of the haversine distances between consecutive points of a path, and the
  path of a route: the location of the first stop of the list with each id.
\<close>

fun path_length :: "(real \<times> real) list \<Rightarrow> real" where
  "path_length (p # q # ps) = haversine_distance p q + path_length (q # ps)"
| "path_length [p] = 0"
| "path_length [] = 0"

definition stop_location :: "Stop list \<Rightarrow> int \<Rightarrow> real \<times> real" where
  "stop_location sts i =
     (case find (\<lambda>s. stop_id s = i) sts of Some s \<Rightarrow> location s | None \<Rightarrow> (0, 0))"

definition route_length :: "Stop list \<Rightarrow> int list \<Rightarrow> real" where
  "route_length sts rs = path_length (map (stop_location sts) rs)"

section \<open>Reading a metric off an outcome\<close>

text \<open>The value of a key of the metrics an operation returned; \<open>None\<close> when it raised.\<close>

definition metric_of :: "error + (string \<rightharpoonup> real) \<Rightarrow> string \<Rightarrow> real option" where
  "metric_of r k = (case r of Inl e \<Rightarrow> None | Inr m \<Rightarrow> m k)"

section \<open>Two fixed optimizers\<close>

text \<open>
  Optimizers that return a fixed result, to run the hybrid optimizer on: the first
  reports a distance of 40, the second a distance of 25, and each records its call in
  the world, a counter.
\<close>

definition fixed_optimizers :: "nat RouteOptimizer" where
  "fixed_optimizers =
     \<lparr>ga_optimizer =
        (\<lambda>sds bds cons w. Inr (empty_result\<lparr>metrics := [''total_distance_km'' \<mapsto> 40]\<rparr>, w + 1)),
      rl_optimizer =
        (\<lambda>sds bds cons w. Inr (empty_result\<lparr>metrics := [''total_distance_km'' \<mapsto> 25]\<rparr>, w + 10))\<rparr>"

section \<open>Invariants of the agent\<close>

text \<open>
  Every row of the table holds one value per action; and an agent in working order:
  such a table, at least one action, remembered actions within the action range, and
  the constants \<open>__init__\<close> sets.
\<close>

definition table_ok :: "nat \<Rightarrow> (real list \<rightharpoonup> real list) \<Rightarrow> bool" where
  "table_ok n q = (\<forall>k row. q k = Some row \<longrightarrow> length row = n)"

definition agent_ok :: "DQN \<Rightarrow> bool" where
  "agent_ok d =
     (table_ok (action_size d) (q_table d) \<and> 0 < action_size d
      \<and> (\<forall>e \<in> set (memory d). exp_action e < action_size d)
      \<and> epsilon_min d = 1 / 100 \<and> epsilon_decay d = 995 / 1000)"

section \<open>The episodic search of the learner\<close>

text \<open>
  \<open>RouteState\<close> and its feature vector: four features, then the first 20 stops of the
  route, each divided by \<open>max(len(stops), 1)\<close>, on 20 slots filled up with zeros.
\<close>

record RouteState =
  rs_stops :: "stop_dict list"
  current_route :: "int list"
  traffic_level :: real
  weather_condition :: string

definition weather_encoding :: "string \<Rightarrow> real" where
  "weather_encoding w =
     (if w = ''clear'' then 0 else if w = ''rain'' then 1 / 2
      else if w = ''heavy_rain'' then 1 else if w = ''snow'' then 8 / 10 else 0)"

definition to_vector :: "RouteState \<Rightarrow> real list" where
  "to_vector st =
     (let features = [real (length (current_route st)), traffic_level st,
                      weather_encoding (weather_condition st), real (length (rs_stops st))];
          filled = map (\<lambda>stop_id. real_of_int stop_id / real (max (length (rs_stops st)) 1))
                     (take 20 (current_route st));
          route_features = filled @ replicate (20 - length filled) 0
      in features @ route_features)"

text \<open>
  The learner draws from two generators: Python's \<open>random\<close> (first component of the
  world) and NumPy's (second component, read by \<open>np.random.rand\<close>).
  \<open>random.randrange(n)\<close> raises ValueError on an empty range; \<open>random.uniform(a, b)\<close>
  is \<open>a + (b - a) * random()\<close>; \<open>random.choice(xs)\<close> picks a position of \<open>xs\<close>.
\<close>

type_synonym rl_world = "rng \<times> rng"

definition randrange :: "nat \<Rightarrow> rng \<Rightarrow> error + (nat \<times> rng)" where
  "randrange n g =
     (if n = 0 then Inl ValueError else (case draw g of (k, g') \<Rightarrow> Inr (k mod n, g')))"

definition uniform :: "real \<Rightarrow> real \<Rightarrow> rng \<Rightarrow> real \<times> rng" where
  "uniform a b g = (case random_unit g of (u, g') \<Rightarrow> (a + (b - a) * u, g'))"

definition choice :: "'a list \<Rightarrow> rng \<Rightarrow> error + ('a \<times> rng)" where
  "choice xs g =
     (if xs = [] then Inl IndexError
      else (case draw g of (k, g') \<Rightarrow> Inr (xs ! (k mod length xs), g')))"

text \<open>\<open>np.argmax\<close>: the first position of the greatest value; ValueError on an empty row.\<close>

fun argmax_from :: "nat \<Rightarrow> real \<Rightarrow> nat \<Rightarrow> real list \<Rightarrow> nat" where
  "argmax_from best_i best_v i [] = best_i"
| "argmax_from best_i best_v i (x # xs) =
     (if best_v < x then argmax_from i x (Suc i) xs else argmax_from best_i best_v (Suc i) xs)"

definition argmax :: "real list \<Rightarrow> error + nat" where
  "argmax row = (case row of [] \<Rightarrow> Inl ValueError | x # xs \<Rightarrow> Inr (argmax_from 0 x 1 xs))"

text \<open>
  \<open>DQN.act\<close>: a random action with probability epsilon, else the best action of the
  state's row, which is created (all zeros) when the table lacks it.
\<close>

definition act :: "DQN \<Rightarrow> real list \<Rightarrow> rl_world \<Rightarrow> error + (nat \<times> DQN \<times> rl_world)" where
  "act d state_vector w =
     (case random_unit (snd w) of (u, ng') \<Rightarrow>
        if u \<le> epsilon d then
          (case randrange (action_size d) (fst w) of
             Inl e \<Rightarrow> Inl e
           | Inr (a, g') \<Rightarrow> Inr (a, d, (g', ng')))
        else
          (let k = state_key state_vector;
               q' = (q_table d)(k \<mapsto> row_of (action_size d) (q_table d) k)
           in (case argmax (row_of (action_size d) q' k) of
                 Inl e \<Rightarrow> Inl e
               | Inr a \<Rightarrow> Inr (a, d\<lparr>q_table := q'\<rparr>, (fst w, ng')))))"

text \<open>
  \<open>_apply_action\<close>: the ids of the stops not yet on the route, in the order of the
  stop list; action 0 takes the first, action 1 the last, any other action a random one.
\<close>

definition apply_action ::
  "nat \<Rightarrow> int list \<Rightarrow> stop_dict list \<Rightarrow> rng \<Rightarrow> error + (int option \<times> rng)" where
  "apply_action action route sds g =
     (let available_stops = filter (\<lambda>i. i \<notin> set route) (map sd_id sds)
      in if available_stops = [] then Inr (None, g)
         else if action = 0 then Inr (Some (hd available_stops), g)
         else if action = 1 then Inr (Some (last available_stops), g)
         else (case choice available_stops g of
                 Inl e \<Rightarrow> Inl e
               | Inr (i, g') \<Rightarrow> Inr (Some i, g')))"

text \<open>The truth value of \<open>next_stop\<close> in \<open>if next_stop\<close>: \<open>None\<close> and 0 are false.\<close>

definition truthy :: "int option \<Rightarrow> bool" where
  "truthy next_stop = (case next_stop of None \<Rightarrow> False | Some n \<Rightarrow> n \<noteq> 0)"

definition appended :: "int option \<Rightarrow> int list" where
  "appended next_stop = (case next_stop of None \<Rightarrow> [] | Some n \<Rightarrow> if n \<noteq> 0 then [n] else [])"

definition calculate_reward ::
  "int list \<Rightarrow> int option \<Rightarrow> stop_dict list \<Rightarrow> constraints \<Rightarrow> error + real" where
  "calculate_reward route next_stop sds cons =
     (case next_stop of
        None \<Rightarrow> Inr (- 10)
      | Some n \<Rightarrow>
          (case find_stop_dict sds n of
             Inl e \<Rightarrow> Inl e
           | Inr stop \<Rightarrow>
               (let reward = 0 + real_of_int (case sd_students stop of None \<Rightarrow> 1 | Some k \<Rightarrow> k) * 2
                in (case (if route \<noteq> [] then
                            (case find_stop_dict sds (last route) of
                               Inl e \<Rightarrow> Inl e
                             | Inr last_stop \<Rightarrow>
                                 Inr (reward
                                      - calculate_distance (sd_lat last_stop, sd_lng last_stop)
                                          (sd_lat stop, sd_lng stop) * (1 / 10)))
                          else Inr reward) of
                      Inl e \<Rightarrow> Inl e
                    | Inr reward' \<Rightarrow>
                        (let limit = (case max_time cons of None \<Rightarrow> 60 | Some t \<Rightarrow> t)
                         in Inr (if limit < real (length route * 5) then reward' - 5
                                 else reward'))))))"

definition initialize_state :: "stop_dict list \<Rightarrow> rng \<Rightarrow> error + (RouteState \<times> rng)" where
  "initialize_state sds g =
     (case uniform (3 / 10) (7 / 10) g of (traffic, g1) \<Rightarrow>
        (case choice [''clear'', ''rain'', ''heavy_rain''] g1 of
           Inl e \<Rightarrow> Inl e
         | Inr (weather, g2) \<Rightarrow>
             Inr (\<lparr>rs_stops = sds, current_route = [], traffic_level = traffic,
                   weather_condition = weather\<rparr>, g2)))"

definition update_state ::
  "RouteState \<Rightarrow> int option \<Rightarrow> int list \<Rightarrow> rng \<Rightarrow> RouteState \<times> rng" where
  "update_state st next_stop route g =
     (let new_route = route @ appended next_stop
      in (case uniform (- (1 / 10)) (1 / 10) g of (traffic_change, g') \<Rightarrow>
            (let new_traffic = max 0 (min 1 (traffic_level st + traffic_change))
             in (\<lparr>rs_stops = rs_stops st, current_route = new_route,
                  traffic_level = new_traffic,
                  weather_condition = weather_condition st\<rparr>, g'))))"

text \<open>
  The loop \<open>while not done and len(route) < len(stops)\<close> of one episode. It need not
  end (a stop with id 0 is never appended and stays available), so it runs on fuel:
  \<open>None\<close> says the fuel did not suffice.
\<close>

fun episode_loop ::
  "nat \<Rightarrow> stop_dict list \<Rightarrow> constraints \<Rightarrow> DQN \<Rightarrow> RouteState \<Rightarrow> int list \<Rightarrow> real \<Rightarrow> bool
     \<Rightarrow> rl_world \<Rightarrow> (error + (int list \<times> real \<times> DQN \<times> rl_world)) option" where
  "episode_loop 0 sds cons d st route total_reward done w = None"
| "episode_loop (Suc fuel) sds cons d st route total_reward done w =
     (if \<not> done \<and> length route < length sds then
        (let state_vector = to_vector st in
         (case act d state_vector w of
            Inl e \<Rightarrow> Some (Inl e)
          | Inr (action, d1, w1) \<Rightarrow>
         (case apply_action action route sds (fst w1) of
            Inl e \<Rightarrow> Some (Inl e)
          | Inr (next_stop, g2) \<Rightarrow>
         (case calculate_reward route next_stop sds cons of
            Inl e \<Rightarrow> Some (Inl e)
          | Inr reward \<Rightarrow>
         (case update_state st next_stop route g2 of (next_state, g3) \<Rightarrow>
            (let done' = (length sds \<le> length route \<or> next_stop = None);
                 route' = (if truthy next_stop then route @ appended next_stop else route);
                 total_reward' = (if truthy next_stop then total_reward + reward
                                  else total_reward);
                 d2 = remember d1
                        \<lparr>exp_state = state_vector, exp_action = action, exp_reward = reward,
                         exp_next_state = to_vector next_state, exp_done = done'\<rparr>
             in episode_loop fuel sds cons d2 next_state route' total_reward' done'
                  (g3, snd w1)))))))
      else Some (Inr (route, total_reward, d, w)))"

text \<open>
  The loop over the episodes of \<open>RLOptimizer.optimize\<close>: an episode, a replay, and
  the best route so far. \<open>best_reward\<close> starts at \<open>float('-inf')\<close>, which is \<open>None\<close>.
\<close>

fun run_episodes ::
  "nat \<Rightarrow> nat \<Rightarrow> stop_dict list \<Rightarrow> constraints \<Rightarrow> int list option \<Rightarrow> real option \<Rightarrow> DQN
     \<Rightarrow> rl_world \<Rightarrow> (error + (int list option \<times> real option \<times> DQN \<times> rl_world)) option" where
  "run_episodes 0 fuel sds cons best_route best_reward d w =
     Some (Inr (best_route, best_reward, d, w))"
| "run_episodes (Suc n) fuel sds cons best_route best_reward d w =
     (case initialize_state sds (fst w) of
        Inl e \<Rightarrow> Some (Inl e)
      | Inr (st, g1) \<Rightarrow>
     (case episode_loop fuel sds cons d st [] 0 False (g1, snd w) of
        None \<Rightarrow> None
      | Some (Inl e) \<Rightarrow> Some (Inl e)
      | Some (Inr (route, total_reward, d1, w1)) \<Rightarrow>
     (case replay d1 32 (fst w1) of
        Inl e \<Rightarrow> Some (Inl e)
      | Inr (d2, g2) \<Rightarrow>
          (let improved = (best_reward < Some total_reward);
               best_reward' = (if improved then Some total_reward else best_reward);
               best_route' = (if improved then Some route else best_route)
           in run_episodes n fuel sds cons best_route' best_reward' d2 (g2, snd w1)))))"

text \<open>
  \<open>RLOptimizer\<close> and its \<open>optimize\<close>: the search, then \<open>_format_results\<close> on the best
  route and the best reward. The best reward is \<open>-inf\<close> only as long as the best
  route is \<open>None\<close>, and \<open>_format_results\<close> then returns without reading the reward;
  \<open>reward_value\<close> gives it 0 there.
\<close>

record RLOptimizer =
  rl_state_size :: nat
  rl_action_size :: nat
  agent :: DQN
  episodes :: nat

definition rl_init :: RLOptimizer where
  "rl_init = \<lparr>rl_state_size = 24, rl_action_size = 10, agent = dqn_init 24 10, episodes = 100\<rparr>"

definition reward_value :: "real option \<Rightarrow> real" where
  "reward_value best_reward = (case best_reward of None \<Rightarrow> 0 | Some x \<Rightarrow> x)"

definition rl_search ::
  "nat \<Rightarrow> RLOptimizer \<Rightarrow> stop_dict list \<Rightarrow> constraints \<Rightarrow> rl_world
     \<Rightarrow> (error + (int list option \<times> real option \<times> DQN \<times> rl_world)) option" where
  "rl_search fuel self sds cons w =
     run_episodes (episodes self) fuel sds cons None None (agent self) w"

definition rl_optimize ::
  "nat \<Rightarrow> RLOptimizer \<Rightarrow> stop_dict list \<Rightarrow> bus_dict list \<Rightarrow> constraints \<Rightarrow> rl_world
     \<Rightarrow> (error + (result \<times> RLOptimizer \<times> rl_world)) option" where
  "rl_optimize fuel self sds bds cons w =
     (case rl_search fuel self sds cons w of
        None \<Rightarrow> None
      | Some (Inl e) \<Rightarrow> Some (Inl e)
      | Some (Inr (best_route, best_reward, d, w')) \<Rightarrow>
          (case format_results (episodes self) best_route sds bds (reward_value best_reward) of
             Inl e \<Rightarrow> Some (Inl e)
           | Inr res \<Rightarrow> Some (Inr (res, self\<lparr>agent := d\<rparr>, w'))))"

section \<open>Properties of the fitness function\<close>

lemma haversine_arg_bounds:
  fixes p q y :: real
  defines "a \<equiv> (sin ((q - p) / 2))\<^sup>2 + cos p * cos q * (sin y)\<^sup>2"
  shows "0 \<le> a \<and> a \<le> 1"
proof -
  define u where "u = cos (q - p)"
  define v where "v = cos (p + q)"
  define s where "s = (sin y)\<^sup>2"
  have s0: "0 \<le> s" and s1: "s \<le> 1"
    unfolding s_def by (simp_all add: abs_square_le_1)
  have u1: "\<bar>u\<bar> \<le> 1" and v1: "\<bar>v\<bar> \<le> 1" unfolding u_def v_def by simp_all
  have "cos (2 * ((q - p) / 2)) = 1 - 2 * (sin ((q - p) / 2))\<^sup>2"
    by (rule cos_double_sin)
  moreover have "2 * ((q - p) / 2) = q - p" by simp
  ultimately have "u = 1 - 2 * (sin ((q - p) / 2))\<^sup>2"
    unfolding u_def by metis
  then have h1: "(sin ((q - p) / 2))\<^sup>2 = (1 - u) / 2" by simp
  have h2: "cos p * cos q = (u + v) / 2"
    unfolding u_def v_def by (simp add: cos_add cos_diff)
  have a_eq: "a = (1 - u * (1 - s) + v * s) / 2"
    unfolding a_def h1 h2 s_def[symmetric] by (simp add: field_simps)
  have b1: "\<bar>u * (1 - s)\<bar> \<le> 1 - s"
    using mult_right_mono[of "\<bar>u\<bar>" 1 "1 - s"] u1 s1 by (simp add: abs_mult)
  have b2: "\<bar>v * s\<bar> \<le> s"
    using mult_right_mono[of "\<bar>v\<bar>" 1 s] v1 s0 by (simp add: abs_mult)
  from b1 b2 show ?thesis unfolding a_eq by (simp add: abs_le_iff)
qed

lemma haversine_distance_nonneg: "0 \<le> haversine_distance loc1 loc2"
proof -
  let ?a = "(sin ((radians (fst loc2) - radians (fst loc1)) / 2))\<^sup>2
     + cos (radians (fst loc1)) * cos (radians (fst loc2))
       * (sin ((radians (snd loc2) - radians (snd loc1)) / 2))\<^sup>2"
  have "0 \<le> ?a \<and> ?a \<le> 1" by (rule haversine_arg_bounds)
  then have "sqrt ?a \<in> {0..1}" by (simp add: real_le_lsqrt)
  then have "0 \<le> arcsin (sqrt ?a)" by (rule arcsin_nonneg)
  then show ?thesis by (simp add: haversine_distance_def Let_def)
qed

lemma path_length_nonneg: "0 \<le> path_length ps"
  by (induction ps rule: path_length.induct) (simp_all add: haversine_distance_nonneg)

lemma path_length_short: "length ps \<le> 1 \<Longrightarrow> path_length ps = 0"
  by (cases ps rule: path_length.cases) auto

lemma find_stop_known:
  assumes "\<exists>s \<in> set sts. stop_id s = i"
  shows "\<exists>s. find_stop sts i = Inr s \<and> location s = stop_location sts i"
proof -
  from assms have "find (\<lambda>s. stop_id s = i) sts \<noteq> None"
    by (auto simp add: find_None_iff)
  then obtain s where "find (\<lambda>s. stop_id s = i) sts = Some s" by blast
  then show ?thesis by (simp add: find_stop_def stop_location_def)
qed

lemma distance_loop_eq:
  assumes known: "\<forall>i \<in> set rs. \<exists>s \<in> set sts. stop_id s = i"
  shows "k \<le> length rs - 1 \<Longrightarrow>
    distance_loop sts rs [k..<length rs - 1] acc
      = Inr (acc + path_length (map (stop_location sts) (drop k rs)))"
proof (induction "length rs - 1 - k" arbitrary: k acc)
  case 0
  then have k: "k = length rs - 1" by simp
  then have "length (drop k rs) \<le> 1" by simp
  then have "path_length (map (stop_location sts) (drop k rs)) = 0"
    by (intro path_length_short) simp
  with k show ?case by simp
next
  case (Suc n)
  then have lt: "k < length rs - 1" by simp
  then have k1: "Suc k < length rs" and k0: "k < length rs" by simp_all
  from known k0 obtain s1 where s1: "find_stop sts (rs ! k) = Inr s1"
      "location s1 = stop_location sts (rs ! k)"
    using find_stop_known[of sts "rs ! k"] by (metis nth_mem)
  from known k1 obtain s2 where s2: "find_stop sts (rs ! Suc k) = Inr s2"
      "location s2 = stop_location sts (rs ! Suc k)"
    using find_stop_known[of sts "rs ! Suc k"] by (metis nth_mem)
  have dr: "drop k rs = rs ! k # rs ! Suc k # drop (Suc (Suc k)) rs"
    using k0 k1 by (simp add: Cons_nth_drop_Suc)
  have dr1: "drop (Suc k) rs = rs ! Suc k # drop (Suc (Suc k)) rs"
    using k1 by (simp add: Cons_nth_drop_Suc)
  have ih: "distance_loop sts rs [Suc k..<length rs - 1] acc'
      = Inr (acc' + path_length (map (stop_location sts) (drop (Suc k) rs)))" for acc'
    using Suc.hyps(1)[of "Suc k" acc'] Suc.hyps(2) lt by simp
  let ?h = "haversine_distance (stop_location sts (rs ! k)) (stop_location sts (rs ! Suc k))"
  have upt: "[k..<length rs - 1] = k # [Suc k..<length rs - 1]"
    using lt by (simp add: upt_rec)
  have step: "distance_loop sts rs (k # [Suc k..<length rs - 1]) acc
      = distance_loop sts rs [Suc k..<length rs - 1] (acc + ?h)"
    by (simp add: s1 s2)
  have pl: "path_length (map (stop_location sts) (drop k rs))
      = ?h + path_length (map (stop_location sts) (drop (Suc k) rs))"
    by (simp add: dr dr1)
  have "distance_loop sts rs [k..<length rs - 1] acc
      = distance_loop sts rs (k # [Suc k..<length rs - 1]) acc"
    by (simp only: upt)
  also have "\<dots> = distance_loop sts rs [Suc k..<length rs - 1] (acc + ?h)"
    by (rule step)
  also have "\<dots> = Inr ((acc + ?h) + path_length (map (stop_location sts) (drop (Suc k) rs)))"
    by (rule ih)
  also have "\<dots> = Inr (acc + path_length (map (stop_location sts) (drop k rs)))"
    by (simp add: pl)
  finally show ?case .
qed

lemma calculate_total_distance_eq:
  assumes "\<forall>i \<in> set (stops route). \<exists>s \<in> set sts. stop_id s = i"
  shows "calculate_total_distance route sts = Inr (route_length sts (stops route))"
proof (cases "length (stops route) < 2")
  case True
  then have "path_length (map (stop_location sts) (stops route)) = 0"
    by (intro path_length_short) simp
  with True show ?thesis by (simp add: calculate_total_distance_def route_length_def)
next
  case False
  then show ?thesis
    using distance_loop_eq[OF assms, of 0 0]
    by (simp add: calculate_total_distance_def route_length_def)
qed

lemma total_students_nonneg:
  assumes "\<forall>s \<in> set sts. 0 \<le> students s"
  shows "0 \<le> total_students route sts"
  unfolding total_students_def using assms by (intro sum_list_nonneg) auto

lemma score_bounds:
  fixes d :: real
  assumes "0 \<le> d" and "0 < c"
  shows "0 < 1 / (1 + d / c) \<and> 1 / (1 + d / c) \<le> 1"
proof -
  have "1 \<le> 1 + d / c" using assms by simp
  then show ?thesis by (simp add: divide_le_eq_1)
qed

text \<open>
  With unique bus ids the lookup of a route's \<open>bus_id\<close> returns the bus of the list
  with that id.
\<close>

lemma find_bus_unique:
  assumes "distinct (map bus_ident bs)" and "b \<in> set bs" and "bus_ident b = i"
  shows "find_bus bs i = Inr b"
  using assms
proof (induction bs)
  case Nil
  then show ?case by simp
next
  case (Cons a bs)
  show ?case
  proof (cases "bus_ident a = i")
    case True
    have "b = a"
    proof (rule ccontr)
      assume "b \<noteq> a"
      with Cons.prems(2) have "b \<in> set bs" by simp
      then have "bus_ident b \<in> set (map bus_ident bs)" by simp
      with Cons.prems(1,3) True show False by simp
    qed
    with True show ?thesis by (simp add: find_bus_def)
  next
    case False
    with Cons.prems have "b \<in> set bs" "distinct (map bus_ident bs)" by auto
    from Cons.IH[OF this(2) this(1) Cons.prems(3)] False show ?thesis
      by (simp add: find_bus_def)
  qed
qed

text \<open>
  C1. A route whose \<open>bus_id\<close> resolves (the lookup \<open>next(b for b in buses if b.id ==
  route.bus_id)\<close>) to a bus of positive capacity, all of whose stop ids occur in the
  stop list, no stop having a negative number of students: \<open>_calculate_fitness\<close>
  returns \<open>0.4 * (1 / (1 + d / 100)) + 0.3 * (1 / (1 + t / 60)) + 0.3 * min (served /
  capacity) 1\<close>, where \<open>d\<close> is the sum of the consecutive haversine distances over the
  route (0 for fewer than two stops), \<open>t = d / 30 * 60\<close> and \<open>served\<close> is the sum of the
  students of the stops whose id is in the route; the value lies in \<open>(0, 1]\<close>.
\<close>

theorem calculate_fitness_value:
  assumes bus: "find_bus bs (bus_id route) = Inr bus" and cap: "0 < capacity bus"
    and known: "\<forall>i \<in> set (stops route). \<exists>s \<in> set sts. stop_id s = i"
    and nonneg: "\<forall>s \<in> set sts. 0 \<le> students s"
  defines "d \<equiv> route_length sts (stops route)"
  defines "t \<equiv> d / 30 * 60"
  defines "served \<equiv> sum_list (map students (filter (\<lambda>s. stop_id s \<in> set (stops route)) sts))"
  defines "value \<equiv> 0.4 * (1 / (1 + d / 100)) + 0.3 * (1 / (1 + t / 60))
      + 0.3 * min (real_of_int served / real_of_int (capacity bus)) 1"
  shows "calculate_fitness (ga_init ps gens mr cr) route sts bs = Inr value
    \<and> 0 < value \<and> value \<le> 1"
proof -
  have d0: "0 \<le> d" unfolding d_def route_length_def by (rule path_length_nonneg)
  then have t0: "0 \<le> t" unfolding t_def by simp
  have served0: "0 \<le> served"
    using total_students_nonneg[OF nonneg, of route] by (simp add: served_def total_students_def)
  have ds: "0 < 1 / (1 + d / 100) \<and> 1 / (1 + d / 100) \<le> 1"
    using score_bounds[OF d0, of 100] by simp
  have ts: "0 < 1 / (1 + t / 60) \<and> 1 / (1 + t / 60) \<le> 1"
    using score_bounds[OF t0, of 60] by simp
  have cs: "0 \<le> min (real_of_int served / real_of_int (capacity bus)) 1
      \<and> min (real_of_int served / real_of_int (capacity bus)) 1 \<le> 1"
    using served0 cap by simp
  have eq: "calculate_fitness (ga_init ps gens mr cr) route sts bs = Inr value"
    using cap
    by (simp add: calculate_fitness_def calculate_total_distance_eq[OF known] bus
        ga_init_def Let_def value_def d_def t_def served_def total_students_def)
  have "0 < value \<and> value \<le> 1"
    unfolding value_def using ds ts cs by linarith
  with eq show ?thesis by simp
qed

theorem calculate_fitness_value_witness:
  "calculate_fitness (ga_init 50 100 (1 / 10) (8 / 10)) (mk_Route 1 [1, 2])
     [mk_Stop 1 (0, 0) 4, mk_Stop 2 (0, 0) 6] [mk_Bus 1 50] = Inr (19 / 25)
   \<and> (0 :: real) < 19 / 25 \<and> (19 / 25 :: real) \<le> 1"
  using calculate_fitness_value [of "[mk_Bus 1 50]" "mk_Route 1 [1, 2]" "mk_Bus 1 50"
      "[mk_Stop 1 (0, 0) 4, mk_Stop 2 (0, 0) 6]" 50 100 "1 / 10" "8 / 10"]
  by (simp add: mk_Route_def mk_Stop_def mk_Bus_def find_bus_def route_length_def
      stop_location_def haversine_distance_def radians_def)

section \<open>Properties of the genetic operators\<close>

lemma remove_nth_distinct:
  assumes "distinct xs" and "i < length xs"
  shows "distinct (take i xs @ drop (Suc i) xs)
    \<and> set (take i xs @ drop (Suc i) xs) = set xs - {xs ! i}"
proof -
  have xs: "xs = take i xs @ xs ! i # drop (Suc i) xs"
    using assms(2) by (simp add: id_take_nth_drop)
  have d: "distinct (take i xs @ xs ! i # drop (Suc i) xs)"
    using assms(1) xs by simp
  have s: "set xs = set (take i xs) \<union> {xs ! i} \<union> set (drop (Suc i) xs)"
    by (subst xs) auto
  from d show ?thesis by (auto simp: s)
qed

lemma sample_from_props:
  "distinct xs \<Longrightarrow> k \<le> length xs \<Longrightarrow>
     distinct (fst (sample_from xs k g)) \<and> set (fst (sample_from xs k g)) \<subseteq> set xs
     \<and> length (fst (sample_from xs k g)) = k"
proof (induction xs k g rule: sample_from.induct)
  case (1 xs g)
  then show ?case by simp
next
  case (2 k g)
  then show ?case by simp
next
  case (3 x xs k g)
  obtain n g' where dr: "draw g = (n, g')" by (cases "draw g")
  define i where "i = n mod length (x # xs)"
  define rest where "rest = take i (x # xs) @ drop (Suc i) (x # xs)"
  have i: "i < length (x # xs)" unfolding i_def by simp
  have rest: "distinct rest" "set rest = set (x # xs) - {(x # xs) ! i}"
    using remove_nth_distinct[OF "3.prems"(1) i] unfolding rest_def by blast+
  have len: "length rest = length xs" unfolding rest_def using i by simp
  obtain ys g'' where sf: "sample_from rest k g' = (ys, g'')" by (cases "sample_from rest k g'")
  have ih: "distinct ys \<and> set ys \<subseteq> set rest \<and> length ys = k"
    using "3.IH"[OF dr[symmetric] i_def, of ] rest(1) len "3.prems"(2) sf
    unfolding rest_def[symmetric] by simp
  have res: "sample_from (x # xs) (Suc k) g = ((x # xs) ! i # ys, g'')"
    using dr sf unfolding rest_def i_def by (simp add: Let_def)
  have mem: "(x # xs) ! i \<in> set (x # xs)" using i by (rule nth_mem)
  show ?case unfolding res using ih rest(2) mem by auto
qed

lemma sample_two:
  assumes "2 \<le> n"
  shows "\<exists>i j g'. sample [0..<n] 2 g = Inr ([i, j], g') \<and> i \<noteq> j \<and> i < n \<and> j < n"
proof -
  obtain ys g' where sf: "sample_from [0..<n] 2 g = (ys, g')" by (cases "sample_from [0..<n] 2 g")
  have p: "distinct ys \<and> set ys \<subseteq> set [0..<n] \<and> length ys = 2"
    using sample_from_props[of "[0..<n]" 2 g] assms sf by simp
  then obtain i j where ys: "ys = [i, j]"
    by (cases ys; cases "tl ys") auto
  with p have "i \<noteq> j \<and> i < n \<and> j < n" by auto
  with ys sf assms show ?thesis by (simp add: sample_def)
qed

lemma distinct_fill_child: "distinct child \<Longrightarrow> distinct (fill_child child limit ss)"
  by (induction child limit ss rule: fill_child.induct) auto

lemma distinct_slice: "distinct xs \<Longrightarrow> distinct (slice xs a b)"
  by (simp add: slice_def)

lemma crossover_at_distinct:
  assumes "distinct (stops parent1)" and "distinct (stops parent2)"
  shows "distinct (stops (fst (crossover_at a b parent1 parent2)))
    \<and> distinct (stops (snd (crossover_at a b parent1 parent2)))"
  using assms by (simp add: crossover_at_def Let_def mk_Route_def distinct_fill_child distinct_slice)

lemma crossover_result:
  "\<exists>a b g'. crossover parent1 parent2 g = Inr ((parent1, parent2), g')
     \<or> crossover parent1 parent2 g = Inr (crossover_at a b parent1 parent2, g')"
proof (cases "length (stops parent1) < 2 \<or> length (stops parent2) < 2")
  case True
  then show ?thesis by (auto simp: crossover_def)
next
  case False
  then have "2 \<le> min (length (stops parent1)) (length (stops parent2))" by simp
  from sample_two[OF this, of g] obtain i j g' where
    "sample [0..<min (length (stops parent1)) (length (stops parent2))] 2 g = Inr ([i, j], g')"
    by blast
  with False show ?thesis by (auto simp: crossover_def sorted_pair_def)
qed

lemma mutate_at_mset:
  assumes "i < length (stops route)" and "j < length (stops route)"
  shows "mset (stops (mutate_at i j route)) = mset (stops route)"
  using mset_swap[OF assms(2) assms(1)] by (simp add: mutate_at_def mk_Route_def)

lemma mutate_result:
  "\<exists>m g'. mutate route g = Inr (m, g') \<and> mset (stops m) = mset (stops route)
     \<and> bus_id m = bus_id route"
proof (cases "length (stops route) < 2")
  case True
  then show ?thesis by (simp add: mutate_def)
next
  case False
  then have "2 \<le> length (stops route)" by simp
  from sample_two[OF this, of g] obtain i j g' where
    s: "sample [0..<length (stops route)] 2 g = Inr ([i, j], g')"
      "i < length (stops route)" "j < length (stops route)"
    by blast
  with False show ?thesis
    by (simp add: mutate_def mutate_at_mset) (simp add: mutate_at_def mk_Route_def)
qed

text \<open>
  C5. For parents without a repeated stop id, \<open>_crossover\<close> returns two children
  without a repeated stop id, and for a route without a repeated stop id \<open>_mutate\<close>
  returns a route without one, holding the same stops as often as the route did
  (the swap keeps the multiset); this for every state of the random source.
\<close>

theorem operators_keep_stops_distinct:
  assumes "distinct (stops parent1)" and "distinct (stops parent2)" and "distinct (stops route)"
  shows "(\<exists>child1 child2 g'. crossover parent1 parent2 g = Inr ((child1, child2), g')
            \<and> distinct (stops child1) \<and> distinct (stops child2))
       \<and> (\<exists>mutated g'. mutate route g = Inr (mutated, g')
            \<and> distinct (stops mutated) \<and> mset (stops mutated) = mset (stops route))"
proof
  from crossover_result[of parent1 parent2 g] obtain a b g' where
    "crossover parent1 parent2 g = Inr ((parent1, parent2), g')
     \<or> crossover parent1 parent2 g = Inr (crossover_at a b parent1 parent2, g')" by blast
  then show "\<exists>child1 child2 g'. crossover parent1 parent2 g = Inr ((child1, child2), g')
            \<and> distinct (stops child1) \<and> distinct (stops child2)"
  proof
    assume "crossover parent1 parent2 g = Inr ((parent1, parent2), g')"
    with assms show ?thesis by blast
  next
    assume c: "crossover parent1 parent2 g = Inr (crossover_at a b parent1 parent2, g')"
    obtain c1 c2 where cc: "crossover_at a b parent1 parent2 = (c1, c2)"
      by (cases "crossover_at a b parent1 parent2")
    with crossover_at_distinct[OF assms(1,2), of a b] have "distinct (stops c1) \<and> distinct (stops c2)"
      by simp
    with c cc show ?thesis by auto
  qed
next
  from mutate_result[of route g] obtain m g' where
    m: "mutate route g = Inr (m, g')" "mset (stops m) = mset (stops route)" by blast
  from m(2) assms(3) have "distinct (stops m)"
    using mset_eq_imp_distinct_iff by blast
  with m show "\<exists>mutated g'. mutate route g = Inr (mutated, g')
            \<and> distinct (stops mutated) \<and> mset (stops mutated) = mset (stops route)" by blast
qed

theorem operators_keep_stops_distinct_witness:
  "(\<exists>child1 child2 g'.
      crossover (mk_Route 1 [1, 2, 3, 4]) (mk_Route 2 [4, 3, 2, 1, 5]) [1, 2]
        = Inr ((child1, child2), g')
      \<and> distinct (stops child1) \<and> distinct (stops child2))
   \<and> (\<exists>mutated g'. mutate (mk_Route 1 [1, 2, 3, 4]) [1, 2] = Inr (mutated, g')
      \<and> distinct (stops mutated) \<and> mset (stops mutated) = mset [1, 2, 3, 4])"
  using operators_keep_stops_distinct [of "mk_Route 1 [1, 2, 3, 4]" "mk_Route 2 [4, 3, 2, 1, 5]"
      "mk_Route 1 [1, 2, 3, 4]" "[1, 2]"]
  by (simp add: mk_Route_def)

section \<open>Evaluating the search on concrete requests\<close>

text \<open>
  Rewrite rules that let the simplifier run the search on a concrete request: the
  loops counted by numerals, and the definitions of the operations.
\<close>

lemma sample_from_numeral:
  "sample_from (x # xs) (numeral k) g =
     (case draw g of (n, g') \<Rightarrow>
        (let i = n mod length (x # xs) in
         (case sample_from (take i (x # xs) @ drop (Suc i) (x # xs)) (pred_numeral k) g' of
            (ys, g'') \<Rightarrow> ((x # xs) ! i # ys, g''))))"
  by (simp add: numeral_eq_Suc)

lemma init_rounds_numeral:
  "init_rounds (numeral k) stop_ids bs pop g =
     (case init_buses stop_ids bs pop g of
        Inl e \<Rightarrow> Inl e
      | Inr (pop', g') \<Rightarrow> init_rounds (pred_numeral k) stop_ids bs pop' g')"
  by (simp add: numeral_eq_Suc)

lemma run_generations_numeral:
  "run_generations (numeral k) self sts bs s =
     (case generation_step self sts bs s of
        Inl e \<Rightarrow> Inl e
      | Inr s' \<Rightarrow> run_generations (pred_numeral k) self sts bs s')"
  by (simp add: numeral_eq_Suc)

lemmas evaluation_rules = upt_rec init_rounds_numeral run_generations_numeral numeral_2_eq_2[symmetric] numeral_3_eq_3[symmetric] generation_step_def initial_state_def calculate_fitness_def
    calculate_total_distance_def find_bus_def mk_Bus_def
    mk_Route_def mk_Stop_def ga_init_def total_students_def find_stop_def haversine_distance_def
    radians_def tournament_selection_def sample_def draw_def random_unit_def crossover_def
    mutate_def sorted_pair_def crossover_at_def mutate_at_def slice_def
    Let_def sample_from_numeral optimize_def initialize_population_def to_Stop_def to_Bus_def
    randint_def calculate_route_metrics_def py_round_def round_half_even_def


section \<open>Properties of the generational search\<close>

lemma generation_step_best:
  assumes "generation_step self sts bs s = Inr s'"
  shows "\<exists>leader :: Route. best_fitness s' =
    (if best_fitness s < Some (fitness leader) then Some (fitness leader) else best_fitness s)"
proof -
  from assms obtain evaluated where ev: "evaluate_population self sts bs (population s) = Inr evaluated"
    unfolding generation_step_def by (cases "evaluate_population self sts bs (population s)") simp_all
  define ranked where "ranked = sort_key (\<lambda>r. - fitness r) evaluated"
  from assms ev obtain leader rest where rk: "ranked = leader # rest"
    unfolding generation_step_def ranked_def Let_def
    by (cases "sort_key (\<lambda>r. - fitness r) evaluated") simp_all
  from assms ev rk obtain new_population g' where
    rp: "reproduce self ranked (take 2 ranked) (rng_state s) = Inr (new_population, g')"
    unfolding generation_step_def ranked_def Let_def
    by (cases "reproduce self (leader # rest) (take 2 (leader # rest)) (rng_state s)") auto
  from assms have "best_fitness s' =
    (if best_fitness s < Some (fitness leader) then Some (fitness leader) else best_fitness s)"
    unfolding generation_step_def Let_def ev
    using rk rp unfolding ranked_def by auto
  then show ?thesis by blast
qed

lemma generation_step_best_fitness:
  assumes "generation_step self sts bs s = Inr s'"
  shows "best_fitness s \<le> best_fitness s'
    \<and> (best_fitness s' = best_fitness s \<or> best_fitness s < best_fitness s')"
proof -
  from generation_step_best[OF assms] obtain leader :: Route where
    "best_fitness s' =
    (if best_fitness s < Some (fitness leader) then Some (fitness leader) else best_fitness s)"
    by blast
  then show ?thesis by (cases "best_fitness s < Some (fitness leader)") simp_all
qed

lemma run_generations_unfold:
  "run_generations (Suc n) self sts bs s = Inr s2 \<Longrightarrow>
     \<exists>s'. generation_step self sts bs s = Inr s' \<and> run_generations n self sts bs s' = Inr s2"
  by (cases "generation_step self sts bs s") simp_all

lemma run_generations_fold:
  "generation_step self sts bs s = Inr s' \<Longrightarrow>
     run_generations (Suc n) self sts bs s = run_generations n self sts bs s'"
  by simp

lemma run_generations_last:
  "run_generations (Suc n) self sts bs s = Inr s2 \<Longrightarrow>
     \<exists>s1. run_generations n self sts bs s = Inr s1 \<and> generation_step self sts bs s1 = Inr s2"
proof (induction n arbitrary: s)
  case 0
  then show ?case by (cases "generation_step self sts bs s") simp_all
next
  case (Suc n)
  from run_generations_unfold[OF Suc.prems] obtain s' where
    a: "generation_step self sts bs s = Inr s'"
    and b: "run_generations (Suc n) self sts bs s' = Inr s2" by blast
  from Suc.IH[OF b] obtain s1 where
    c: "run_generations n self sts bs s' = Inr s1" and d: "generation_step self sts bs s1 = Inr s2"
    by blast
  from run_generations_fold[OF a, of n] c have "run_generations (Suc n) self sts bs s = Inr s1"
    by (simp only:)
  with d show ?case by blast
qed

text \<open>
  C6. The best fitness tracked by \<open>optimize\<close> does not decrease from one generation
  to the next: the value after generation \<open>n + 1\<close> is at least the value after
  generation \<open>n\<close>, and it changes only to a strictly greater one.
\<close>

theorem best_fitness_nondecreasing:
  assumes "run_generations n self sts bs s0 = Inr s1"
    and "run_generations (Suc n) self sts bs s0 = Inr s2"
  shows "best_fitness s1 \<le> best_fitness s2
    \<and> (best_fitness s2 = best_fitness s1 \<or> best_fitness s1 < best_fitness s2)"
proof -
  from run_generations_last[OF assms(2)] assms(1) have "generation_step self sts bs s1 = Inr s2"
    by auto
  then show ?thesis by (rule generation_step_best_fitness)
qed

theorem best_fitness_nondecreasing_witness:
  "\<exists>s1 s2.
     run_generations 1 (ga_init 4 2 (1 / 10) (8 / 10))
       [mk_Stop 1 (0, 0) 10, mk_Stop 2 (0, 0) 20, mk_Stop 3 (0, 0) 30] [mk_Bus 1 40]
       (initial_state [mk_Route 1 [1], mk_Route 1 [2], mk_Route 1 [3, 1]] [0, 0, 0, 1, 0, 0])
       = Inr s1
     \<and> run_generations (Suc 1) (ga_init 4 2 (1 / 10) (8 / 10))
       [mk_Stop 1 (0, 0) 10, mk_Stop 2 (0, 0) 20, mk_Stop 3 (0, 0) 30] [mk_Bus 1 40]
       (initial_state [mk_Route 1 [1], mk_Route 1 [2], mk_Route 1 [3, 1]] [0, 0, 0, 1, 0, 0])
       = Inr s2
     \<and> best_fitness s1 = Some 1 \<and> best_fitness s2 = Some 1
     \<and> best_fitness s1 \<le> best_fitness s2"
proof -
  let ?run = "\<lambda>n. run_generations n (ga_init 4 2 (1 / 10) (8 / 10))
       [mk_Stop 1 (0, 0) 10, mk_Stop 2 (0, 0) 20, mk_Stop 3 (0, 0) 30] [mk_Bus 1 40]
       (initial_state [mk_Route 1 [1], mk_Route 1 [2], mk_Route 1 [3, 1]] [0, 0, 0, 1, 0, 0])"
  have "\<exists>s1. ?run 1 = Inr s1 \<and> best_fitness s1 = Some 1"
    by (simp add: evaluation_rules)
  then obtain s1 where s1: "?run 1 = Inr s1" "best_fitness s1 = Some 1" by blast
  have "\<exists>s2. ?run (Suc 1) = Inr s2 \<and> best_fitness s2 = Some 1"
    by (simp add: evaluation_rules)
  then obtain s2 where s2: "?run (Suc 1) = Inr s2" "best_fitness s2 = Some 1" by blast
  from best_fitness_nondecreasing [OF s1(1) s2(1)] s1 s2 show ?thesis by blast
qed

section \<open>Degenerate requests\<close>

lemma init_rounds_no_buses: "init_rounds n ids [] pop g = Inr (pop, g)"
  by (induction n) simp_all

lemma generation_step_empty:
  "generation_step self sts bs (initial_state [] g) = Inl IndexError"
  by (simp add: generation_step_def initial_state_def)

text \<open>
  C2. A request without vehicles is not rejected with a configuration error before the
  search: the population stays empty, and \<open>optimize\<close> raises IndexError at
  \<open>population[0]\<close> in the first generation (AttributeError on the missing best route
  when the optimizer runs no generation), whatever the stops.
\<close>

theorem optimize_no_vehicles:
  "optimize self sds [] cons g =
     Inl (if generations self = 0 then AttributeError else IndexError)"
proof (cases "generations self")
  case 0
  then show ?thesis
    by (simp add: optimize_def initialize_population_def init_rounds_no_buses
        calculate_route_metrics_def initial_state_def)
next
  case (Suc n)
  then show ?thesis
    by (simp add: optimize_def initialize_population_def init_rounds_no_buses
        generation_step_empty)
qed

theorem optimize_no_vehicles_witness:
  "optimize ga_default [\<lparr>sd_id = 1, sd_lat = 0, sd_lng = 0, sd_students = Some 5\<rparr>] []
     \<lparr>max_time = None, max_distance = None\<rparr> [] = Inl IndexError"
  using optimize_no_vehicles [of ga_default
      "[\<lparr>sd_id = 1, sd_lat = 0, sd_lng = 0, sd_students = Some 5\<rparr>]"
      "\<lparr>max_time = None, max_distance = None\<rparr>" "[]"]
  by (simp add: ga_default_def ga_init_def)

lemma init_rounds_no_stops:
  "init_rounds (Suc n) [] (b # bs) pop g = Inl ValueError"
  by (simp add: randint_def)

text \<open>
  C3. A request without stops and with at least one vehicle does not return the
  trivial result: \<open>random.randint(3, 0)\<close> raises ValueError in
  \<open>_initialize_population\<close> as soon as the population size is positive (and with a
  population size of zero the empty population fails as in C2).
\<close>

theorem optimize_no_stops:
  assumes "bds \<noteq> []"
  shows "optimize self [] bds cons g =
     Inl (if 0 < population_size self then ValueError
          else if generations self = 0 then AttributeError else IndexError)"
proof -
  from assms obtain b bs where bds: "map to_Bus bds = b # bs" by (cases bds) auto
  show ?thesis
  proof (cases "population_size self")
    case 0
    then show ?thesis
      by (cases "generations self")
        (simp_all add: optimize_def initialize_population_def calculate_route_metrics_def
          initial_state_def generation_step_def)
  next
    case (Suc n)
    then show ?thesis
      by (simp add: optimize_def initialize_population_def bds init_rounds_no_stops
          del: init_rounds.simps)
  qed
qed

theorem optimize_no_stops_witness:
  "optimize ga_default [] [\<lparr>bd_id = 1, bd_capacity = 50\<rparr>]
     \<lparr>max_time = None, max_distance = None\<rparr> [] = Inl ValueError"
  using optimize_no_stops [of "[\<lparr>bd_id = 1, bd_capacity = 50\<rparr>]" ga_default
      "\<lparr>max_time = None, max_distance = None\<rparr>" "[]"]
  by (simp add: ga_default_def ga_init_def)

section \<open>A run of the whole search\<close>

text \<open>
  The genetic search on three stops and one bus, with a population of 4, 2 generations
  and a random source that yields 0, 1, 2, 0 and then zeros.
\<close>

lemma optimize_example_run:
  "\<exists>res. optimize (ga_init 4 2 (1 / 10) (8 / 10))
     [\<lparr>sd_id = 1, sd_lat = 0, sd_lng = 0, sd_students = Some 10\<rparr>,
      \<lparr>sd_id = 2, sd_lat = 0, sd_lng = 0, sd_students = Some 20\<rparr>,
      \<lparr>sd_id = 3, sd_lat = 0, sd_lng = 0, sd_students = None\<rparr>]
     [\<lparr>bd_id = 1, bd_capacity = 40\<rparr>] \<lparr>max_time = None, max_distance = None\<rparr> [0, 1, 2, 0]
       = Inr (res, [])
     \<and> map fr_bus_id (routes res) = [1]
     \<and> map (map fs_id \<circ> fr_stops) (routes res) = [[2, 1, 3]]
     \<and> metrics res ''stops_count'' = Some 3
     \<and> metrics res ''capacity_utilization'' = Some (155 / 2)"
  by (simp add: evaluation_rules)

section \<open>Capacity utilization in the metrics and in the fitness\<close>

lemma round_half_even_ge_floor: "\<lfloor>x\<rfloor> \<le> round_half_even x"
  by (simp add: round_half_even_def Let_def)

lemma round_half_even_ge:
  assumes "of_int n \<le> x"
  shows "n \<le> round_half_even x"
proof -
  from assms have "n \<le> \<lfloor>x\<rfloor>" by (simp add: le_floor_iff)
  with round_half_even_ge_floor[of x] show ?thesis by linarith
qed

lemma round_half_even_gt:
  assumes "of_int n + 1 / 2 < x"
  shows "n + 1 \<le> round_half_even x"
proof -
  from assms have n: "n \<le> \<lfloor>x\<rfloor>" by (simp add: le_floor_iff)
  show ?thesis
  proof (cases "n + 1 \<le> \<lfloor>x\<rfloor>")
    case True
    with round_half_even_ge_floor[of x] show ?thesis by linarith
  next
    case False
    with n have f: "\<lfloor>x\<rfloor> = n" by linarith
    with assms have "1 / 2 < x - of_int \<lfloor>x\<rfloor>" by simp
    then show ?thesis by (simp add: round_half_even_def Let_def f)
  qed
qed

lemma py_round2_ge_100:
  assumes "100 \<le> x"
  shows "100 \<le> py_round x 2"
proof -
  have "of_int 10000 \<le> x * 10 ^ 2" using assms by simp
  then have "10000 \<le> round_half_even (x * 10 ^ 2)" by (rule round_half_even_ge)
  then have "(10000 :: real) \<le> of_int (round_half_even (x * 10 ^ 2))" by linarith
  then show ?thesis by (simp add: py_round_def)
qed

lemma py_round2_gt_100:
  assumes "100005 / 1000 < x"
  shows "100 < py_round x 2"
proof -
  have "of_int 10000 + 1 / 2 < x * 10 ^ 2" using assms by simp
  then have "10000 + 1 \<le> round_half_even (x * 10 ^ 2)" by (rule round_half_even_gt)
  then have "(10001 :: real) \<le> of_int (round_half_even (x * 10 ^ 2))" by linarith
  then show ?thesis by (simp add: py_round_def)
qed

lemma find_bus_to_Bus:
  assumes "find_bus (map to_Bus bds) i = Inr bus"
  shows "fuel_efficiency bus = 8"
proof -
  from assms have "find (\<lambda>b. bus_ident b = i) (map to_Bus bds) = Some bus"
    by (simp add: find_bus_def split: option.splits)
  then have "bus \<in> set (map to_Bus bds)" by (auto simp: find_Some_iff)
  then show ?thesis by (auto simp: to_Bus_def mk_Bus_def)
qed

text \<open>
  C10 (amended). In the metrics, \<open>capacity_utilization\<close> is \<open>students_served /
  capacity * 100\<close> rounded to two places, with no upper cap: it is at least 100
  whenever the students served reach the capacity, and above 100 whenever
  \<open>students_served / capacity * 100\<close> is above 100.005. The capacity term of the
  fitness is \<open>min (students_served / capacity) 1\<close>, which is at most 1.
\<close>

theorem capacity_utilization_uncapped:
  assumes bus: "find_bus (map to_Bus bds) (bus_id route) = Inr bus"
    and cap: "0 < capacity bus"
    and known: "\<forall>i \<in> set (stops route). \<exists>s \<in> set sts. stop_id s = i"
  defines "served \<equiv> total_students route sts"
  defines "ratio \<equiv> real_of_int served / real_of_int (capacity bus)"
  shows "metric_of (calculate_route_metrics (Some route) sts (map to_Bus bds)) ''students_served''
           = Some (real_of_int served)
       \<and> metric_of (calculate_route_metrics (Some route) sts (map to_Bus bds))
           ''capacity_utilization'' = Some (py_round (ratio * 100) 2)
       \<and> (capacity bus \<le> served \<longrightarrow> 100 \<le> py_round (ratio * 100) 2)
       \<and> (100005 / 1000 < ratio * 100 \<longrightarrow> 100 < py_round (ratio * 100) 2)
       \<and> calculate_fitness (ga_init ps gens mr cr) route sts (map to_Bus bds)
           = Inr (0.4 * (1 / (1 + route_length sts (stops route) / 100))
                  + 0.3 * (1 / (1 + route_length sts (stops route) / 30 * 60 / 60))
                  + 0.3 * min ratio 1)
       \<and> min ratio 1 \<le> 1"
proof -
  have fe: "fuel_efficiency bus = 8" using bus by (rule find_bus_to_Bus)
  have m1: "metric_of (calculate_route_metrics (Some route) sts (map to_Bus bds)) ''students_served''
           = Some (real_of_int served)"
    using cap
    by (simp add: metric_of_def calculate_route_metrics_def calculate_total_distance_eq[OF known]
        bus fe Let_def served_def)
  have m2: "metric_of (calculate_route_metrics (Some route) sts (map to_Bus bds))
           ''capacity_utilization'' = Some (py_round (ratio * 100) 2)"
    using cap
    by (simp add: metric_of_def calculate_route_metrics_def calculate_total_distance_eq[OF known]
        bus fe Let_def served_def ratio_def)
  have r1: "capacity bus \<le> served \<longrightarrow> 100 \<le> py_round (ratio * 100) 2"
  proof
    assume "capacity bus \<le> served"
    then have "1 \<le> ratio" unfolding ratio_def using cap by simp
    then have "100 \<le> ratio * 100" by simp
    then show "100 \<le> py_round (ratio * 100) 2" by (rule py_round2_ge_100)
  qed
  have r2: "100005 / 1000 < ratio * 100 \<longrightarrow> 100 < py_round (ratio * 100) 2"
    using py_round2_gt_100 by blast
  have f: "calculate_fitness (ga_init ps gens mr cr) route sts (map to_Bus bds)
           = Inr (0.4 * (1 / (1 + route_length sts (stops route) / 100))
                  + 0.3 * (1 / (1 + route_length sts (stops route) / 30 * 60 / 60))
                  + 0.3 * min ratio 1)"
    using cap
    by (simp add: calculate_fitness_def calculate_total_distance_eq[OF known] bus
        ga_init_def Let_def served_def ratio_def)
  from m1 m2 r1 r2 f show ?thesis by simp
qed

theorem capacity_utilization_uncapped_witness:
  "metric_of (calculate_route_metrics (Some (mk_Route 1 [1, 2]))
       [mk_Stop 1 (0, 0) 25, mk_Stop 2 (0, 0) 35] (map to_Bus [\<lparr>bd_id = 1, bd_capacity = 40\<rparr>]))
     ''capacity_utilization'' = Some 150
   \<and> calculate_fitness (ga_init 50 100 (1 / 10) (8 / 10)) (mk_Route 1 [1, 2])
       [mk_Stop 1 (0, 0) 25, mk_Stop 2 (0, 0) 35] (map to_Bus [\<lparr>bd_id = 1, bd_capacity = 40\<rparr>])
     = Inr 1"
  using capacity_utilization_uncapped [of "[\<lparr>bd_id = 1, bd_capacity = 40\<rparr>]" "mk_Route 1 [1, 2]"
      "mk_Bus 1 40" "[mk_Stop 1 (0, 0) 25, mk_Stop 2 (0, 0) 35]" 50 100 "1 / 10" "8 / 10"]
  by (simp add: mk_Route_def mk_Stop_def mk_Bus_def to_Bus_def find_bus_def route_length_def
      stop_location_def haversine_distance_def radians_def total_students_def
      py_round_def round_half_even_def)

text \<open>
  C10 as stated fails: 30001 students on a bus of capacity 30000 give
  \<open>capacity_utilization = 100\<close> after rounding, which neither exceeds 100 nor equals
  \<open>30001 / 30000 * 100\<close>.
\<close>

theorem capacity_utilization_counterexample:
  "metric_of (calculate_route_metrics (Some (mk_Route 1 [1]))
       [mk_Stop 1 (0, 0) 30001] (map to_Bus [\<lparr>bd_id = 1, bd_capacity = 30000\<rparr>]))
     ''students_served'' = Some 30001
   \<and> metric_of (calculate_route_metrics (Some (mk_Route 1 [1]))
       [mk_Stop 1 (0, 0) 30001] (map to_Bus [\<lparr>bd_id = 1, bd_capacity = 30000\<rparr>]))
     ''capacity_utilization'' = Some 100
   \<and> metric_of (calculate_route_metrics (Some (mk_Route 1 [1]))
       [mk_Stop 1 (0, 0) 30001] (map to_Bus [\<lparr>bd_id = 1, bd_capacity = 30000\<rparr>]))
     ''capacity_utilization'' \<noteq> Some (30001 / 30000 * 100)"
  by (simp add: metric_of_def calculate_route_metrics_def calculate_total_distance_def
      mk_Route_def mk_Stop_def mk_Bus_def to_Bus_def find_bus_def total_students_def
      py_round_def round_half_even_def)

section \<open>The learner's formatted result\<close>

lemma find_stop_dict_known:
  assumes "\<exists>s \<in> set sds. sd_id s = i"
  shows "\<exists>s. find_stop_dict sds i = Inr s"
proof -
  from assms have "find (\<lambda>s. sd_id s = i) sds \<noteq> None"
    by (auto simp add: find_None_iff)
  then obtain s where "find (\<lambda>s. sd_id s = i) sds = Some s" by blast
  then show ?thesis by (simp add: find_stop_dict_def)
qed

lemma rl_distance_loop_returns:
  assumes known: "\<forall>i \<in> set rs. \<exists>s \<in> set sds. sd_id s = i"
  shows "\<forall>k \<in> set ks. Suc k < length rs \<Longrightarrow> \<exists>d. rl_distance_loop sds rs ks acc = Inr d"
proof (induction ks arbitrary: acc)
  case Nil
  then show ?case by simp
next
  case (Cons k ks)
  then have k: "k < length rs" "Suc k < length rs" by simp_all
  from known k(1) obtain s1 where s1: "find_stop_dict sds (rs ! k) = Inr s1"
    using find_stop_dict_known[of sds "rs ! k"] by (metis nth_mem)
  from known k(2) obtain s2 where s2: "find_stop_dict sds (rs ! Suc k) = Inr s2"
    using find_stop_dict_known[of sds "rs ! Suc k"] by (metis nth_mem)
  from Cons.prems have "\<forall>k \<in> set ks. Suc k < length rs" by simp
  from Cons.IH[OF this] show ?case by (simp add: s1 s2)
qed

lemma rl_format_stops_returns:
  "\<forall>i \<in> set rs. \<exists>s \<in> set sds. sd_id s = i \<Longrightarrow>
     \<exists>fs. rl_format_stops sds idx rs = Inr fs \<and> map fs_id fs = rs"
proof (induction rs arbitrary: idx)
  case Nil
  then show ?case by simp
next
  case (Cons i rs)
  then obtain s where s: "find_stop_dict sds i = Inr s"
    using find_stop_dict_known[of sds i] by auto
  from Cons.prems have "\<forall>i \<in> set rs. \<exists>s \<in> set sds. sd_id s = i" by simp
  from Cons.IH[OF this, of "Suc idx"] obtain fs where
    "rl_format_stops sds (Suc idx) rs = Inr fs" "map fs_id fs = rs" by blast
  then show ?case by (simp add: s)
qed

lemma apply_action_member:
  assumes "apply_action action route sds g = Inr (Some n, g')"
  shows "n \<in> sd_id ` set sds"
proof -
  define available where "available = filter (\<lambda>i. i \<notin> set route) (map sd_id sds)"
  have sub: "set available \<subseteq> sd_id ` set sds" unfolding available_def by auto
  have "available \<noteq> [] \<and> n \<in> set available"
  proof (cases "available = []")
    case True
    with assms show ?thesis by (simp add: apply_action_def available_def[symmetric])
  next
    case False
    then have h: "hd available \<in> set available" and l: "last available \<in> set available"
      by simp_all
    have c: "available ! (k mod length available) \<in> set available" for k
      using False by simp
    from assms False h l c show ?thesis
      by (auto simp: apply_action_def available_def[symmetric] choice_def Let_def
          split: if_splits prod.splits)
  qed
  with sub show ?thesis by blast
qed

lemma appended_known:
  assumes "apply_action action route sds g = Inr (next_stop, g')"
  shows "set (appended next_stop) \<subseteq> sd_id ` set sds"
proof (cases next_stop)
  case None
  then show ?thesis by (simp add: appended_def)
next
  case (Some n)
  with assms have "n \<in> sd_id ` set sds" using apply_action_member by blast
  with Some show ?thesis by (auto simp: appended_def)
qed

lemma episode_loop_known:
  "episode_loop fuel sds cons d st route total_reward done w
      = Some (Inr (route', total_reward', d', w')) \<Longrightarrow>
   set route \<subseteq> sd_id ` set sds \<Longrightarrow> set route' \<subseteq> sd_id ` set sds"
proof (induction fuel arbitrary: d st route total_reward "done" w)
  case 0
  then show ?case by simp
next
  case (Suc fuel)
  show ?case
  proof (cases "\<not> done \<and> length route < length sds")
    case False
    with Suc.prems show ?thesis by auto
  next
    case True
    from Suc.prems(1) True obtain action d1 w1 where
      a: "act d (to_vector st) w = Inr (action, d1, w1)"
      by (cases "act d (to_vector st) w") (auto simp: Let_def)
    from Suc.prems(1) True a obtain next_stop g2 where
      b: "apply_action action route sds (fst w1) = Inr (next_stop, g2)"
      by (cases "apply_action action route sds (fst w1)") (auto simp: Let_def)
    from Suc.prems(1) True a b obtain reward where
      c: "calculate_reward route next_stop sds cons = Inr reward"
      by (cases "calculate_reward route next_stop sds cons") (auto simp: Let_def)
    obtain next_state g3 where u: "update_state st next_stop route g2 = (next_state, g3)"
      by (cases "update_state st next_stop route g2")
    define route1 where "route1 = (if truthy next_stop then route @ appended next_stop else route)"
    from Suc.prems(1) True a b c u obtain d2 total1 done1 where
      rec: "episode_loop fuel sds cons d2 next_state route1 total1 done1 (g3, snd w1)
        = Some (Inr (route', total_reward', d', w'))"
      by (simp add: Let_def route1_def)
    have "set route1 \<subseteq> sd_id ` set sds"
      unfolding route1_def using Suc.prems(2) appended_known[OF b] by auto
    from Suc.IH[OF rec this] show ?thesis .
  qed
qed

lemma run_episodes_known:
  "run_episodes n fuel sds cons best_route best_reward d w
      = Some (Inr (best_route', best_reward', d', w')) \<Longrightarrow>
   (\<forall>r. best_route = Some r \<longrightarrow> set r \<subseteq> sd_id ` set sds) \<Longrightarrow>
   (\<forall>r. best_route' = Some r \<longrightarrow> set r \<subseteq> sd_id ` set sds)"
proof (induction n arbitrary: best_route best_reward d w)
  case 0
  then show ?case by simp
next
  case (Suc n)
  from Suc.prems(1) obtain st g1 where
    i: "initialize_state sds (fst w) = Inr (st, g1)"
    by (cases "initialize_state sds (fst w)") auto
  from Suc.prems(1) i obtain route total_reward d1 w1 where
    e: "episode_loop fuel sds cons d st [] 0 False (g1, snd w)
      = Some (Inr (route, total_reward, d1, w1))"
    by (cases "episode_loop fuel sds cons d st [] 0 False (g1, snd w)")
      (auto split: sum.splits)
  from Suc.prems(1) i e obtain d2 g2 where
    r: "replay d1 32 (fst w1) = Inr (d2, g2)"
    by (cases "replay d1 32 (fst w1)") auto
  define best_route1 where
    "best_route1 = (if best_reward < Some total_reward then Some route else best_route)"
  from Suc.prems(1) i e r obtain best_reward1 where
    rec: "run_episodes n fuel sds cons best_route1 best_reward1 d2 (g2, snd w1)
      = Some (Inr (best_route', best_reward', d', w'))"
    by (simp add: Let_def best_route1_def)
  have "set route \<subseteq> sd_id ` set sds"
    using episode_loop_known[OF e] by simp
  with Suc.prems(2) have "\<forall>r. best_route1 = Some r \<longrightarrow> set r \<subseteq> sd_id ` set sds"
    unfolding best_route1_def by auto
  from Suc.IH[OF rec this] show ?case .
qed

lemma rl_search_known:
  assumes "rl_search fuel self sds cons w = Some (Inr (Some route, best_reward, d, w'))"
  shows "\<forall>i \<in> set route. \<exists>s \<in> set sds. sd_id s = i"
proof -
  from assms have "set route \<subseteq> sd_id ` set sds"
    using run_episodes_known[of "episodes self" fuel sds cons None None "agent self" w
        "Some route" best_reward d w']
    by (simp add: rl_search_def)
  then show ?thesis by auto
qed


lemma rl_format_stops_ids:
  "rl_format_stops sds idx rs = Inr fs \<Longrightarrow> map fs_id fs = rs"
proof (induction rs arbitrary: idx fs)
  case Nil
  then show ?case by simp
next
  case (Cons i rs)
  from Cons.prems obtain s where s: "find_stop_dict sds i = Inr s"
    by (cases "find_stop_dict sds i") auto
  from Cons.prems s obtain rest where
    r: "rl_format_stops sds (Suc idx) rs = Inr rest"
    and fs: "fs = \<lparr>fs_id = i, fs_location = (sd_lat s, sd_lng s), fs_sequence = idx\<rparr> # rest"
    by (cases "rl_format_stops sds (Suc idx) rs") auto
  from Cons.IH[OF r] fs show ?case by simp
qed

lemma format_results_returned:
  assumes "route \<noteq> []"
    and "format_results n (Some route) sds (bus # more_buses) reward = Inr res"
  shows "map fr_bus_id (routes res) = [bd_id bus]
    \<and> map (map fs_id \<circ> fr_stops) (routes res) = [route]"
proof -
  from assms obtain total_km where
    t: "rl_distance_loop sds route [0..<length route - 1] 0 = Inr total_km"
    by (cases "rl_distance_loop sds route [0..<length route - 1] 0")
      (auto simp: format_results_def)
  from assms t obtain fstops where f: "rl_format_stops sds 0 route = Inr fstops"
    by (cases "rl_format_stops sds 0 route") (auto simp: format_results_def)
  from rl_format_stops_ids[OF f] assms t f show ?thesis
    by (auto simp: format_results_def)
qed

lemma format_results_returns:
  assumes "route \<noteq> []" and known: "\<forall>i \<in> set route. \<exists>s \<in> set sds. sd_id s = i"
  shows "\<exists>res. format_results n (Some route) sds (bus # more_buses) reward = Inr res"
proof -
  have "\<forall>k \<in> set [0..<length route - 1]. Suc k < length route" by auto
  from rl_distance_loop_returns[OF known this, of 0] obtain d where
    d: "rl_distance_loop sds route [0..<length route - 1] 0 = Inr d" by blast
  from rl_format_stops_returns[OF known, of 0] obtain fs where
    fs: "rl_format_stops sds 0 route = Inr fs" by blast
  from assms(1) d fs show ?thesis by (simp add: format_results_def)
qed

lemma format_results_empty:
  assumes "route_opt = None \<or> route_opt = Some [] \<or> buses = []"
  shows "format_results n route_opt sds buses reward = Inr empty_result"
  using assms by (auto simp: format_results_def split: option.splits list.splits)

lemma run_episodes_best_pair:
  "run_episodes n fuel sds cons best_route best_reward d w
      = Some (Inr (best_route', best_reward', d', w')) \<Longrightarrow>
   (best_reward = None \<longleftrightarrow> best_route = None) \<Longrightarrow>
   (best_reward' = None \<longleftrightarrow> best_route' = None)"
proof (induction n arbitrary: best_route best_reward d w)
  case 0
  then show ?case by simp
next
  case (Suc n)
  from Suc.prems(1) obtain st g1 where
    i: "initialize_state sds (fst w) = Inr (st, g1)"
    by (cases "initialize_state sds (fst w)") auto
  from Suc.prems(1) i obtain route total_reward d1 w1 where
    e: "episode_loop fuel sds cons d st [] 0 False (g1, snd w)
      = Some (Inr (route, total_reward, d1, w1))"
    by (cases "episode_loop fuel sds cons d st [] 0 False (g1, snd w)")
      (auto split: sum.splits)
  from Suc.prems(1) i e obtain d2 g2 where
    r: "replay d1 32 (fst w1) = Inr (d2, g2)"
    by (cases "replay d1 32 (fst w1)") auto
  define best_route1 where
    "best_route1 = (if best_reward < Some total_reward then Some route else best_route)"
  define best_reward1 where
    "best_reward1 = (if best_reward < Some total_reward then Some total_reward else best_reward)"
  from Suc.prems(1) i e r have
    rec: "run_episodes n fuel sds cons best_route1 best_reward1 d2 (g2, snd w1)
      = Some (Inr (best_route', best_reward', d', w'))"
    by (simp add: Let_def best_route1_def best_reward1_def)
  from Suc.prems(2) have "best_reward1 = None \<longleftrightarrow> best_route1 = None"
    unfolding best_route1_def best_reward1_def by auto
  from Suc.IH[OF rec this] show ?case .
qed

lemma rl_search_best_pair:
  assumes "rl_search fuel self sds cons w = Some (Inr (best_route, best_reward, d, w'))"
  shows "best_reward = None \<longleftrightarrow> best_route = None"
  using assms run_episodes_best_pair[of "episodes self" fuel sds cons None None "agent self" w
      best_route best_reward d w']
  by (simp add: rl_search_def)

lemma rl_optimize_returns:
  assumes "rl_search fuel self sds cons w = Some (Inr (best_route, best_reward, d, w'))"
  shows "\<exists>res. format_results (episodes self) best_route sds bds (reward_value best_reward)
                 = Inr res
             \<and> rl_optimize fuel self sds bds cons w = Some (Inr (res, self\<lparr>agent := d\<rparr>, w'))"
proof -
  have "\<exists>res. format_results (episodes self) best_route sds bds (reward_value best_reward)
                 = Inr res"
  proof (cases "best_route = None \<or> best_route = Some [] \<or> bds = []")
    case True
    then show ?thesis using format_results_empty by blast
  next
    case False
    then obtain route bus more_buses where
      r: "best_route = Some route" "route \<noteq> []" "bds = bus # more_buses"
      by (cases best_route; cases bds) auto
    from assms r have "\<forall>i \<in> set route. \<exists>s \<in> set sds. sd_id s = i"
      using rl_search_known by blast
    from format_results_returns[OF r(2) this] r show ?thesis by simp
  qed
  then obtain res where
    "format_results (episodes self) best_route sds bds (reward_value best_reward) = Inr res"
    by blast
  with assms show ?thesis by (simp add: rl_optimize_def)
qed

text \<open>
  A direct call with a stop id that the stop list lacks ends in StopIteration, from the
  lookup \<open>next(s for s in stops if s['id'] == ...)\<close>. By \<open>rl_search_known\<close> the
  search never builds such a route.
\<close>

lemma format_results_unknown_stop:
  "format_results 100 (Some [7]) [] [\<lparr>bd_id = 1, bd_capacity = 50\<rparr>] 0 = Inl StopIteration"
  by (simp add: format_results_def find_stop_dict_def)

lemma episode_loop_numeral:
  "episode_loop (numeral k) sds cons d st route total_reward done w =
     (if \<not> done \<and> length route < length sds then
        (let state_vector = to_vector st in
         (case act d state_vector w of
            Inl e \<Rightarrow> Some (Inl e)
          | Inr (action, d1, w1) \<Rightarrow>
         (case apply_action action route sds (fst w1) of
            Inl e \<Rightarrow> Some (Inl e)
          | Inr (next_stop, g2) \<Rightarrow>
         (case calculate_reward route next_stop sds cons of
            Inl e \<Rightarrow> Some (Inl e)
          | Inr reward \<Rightarrow>
         (case update_state st next_stop route g2 of (next_state, g3) \<Rightarrow>
            (let done' = (length sds \<le> length route \<or> next_stop = None);
                 route' = (if truthy next_stop then route @ appended next_stop else route);
                 total_reward' = (if truthy next_stop then total_reward + reward
                                  else total_reward);
                 d2 = remember d1
                        \<lparr>exp_state = state_vector, exp_action = action, exp_reward = reward,
                         exp_next_state = to_vector next_state, exp_done = done'\<rparr>
             in episode_loop (pred_numeral k) sds cons d2 next_state route' total_reward' done'
                  (g3, snd w1)))))))
      else Some (Inr (route, total_reward, d, w)))"
  by (simp add: numeral_eq_Suc)

lemma run_episodes_numeral:
  "run_episodes (numeral k) fuel sds cons best_route best_reward d w =
     (case initialize_state sds (fst w) of
        Inl e \<Rightarrow> Some (Inl e)
      | Inr (st, g1) \<Rightarrow>
     (case episode_loop fuel sds cons d st [] 0 False (g1, snd w) of
        None \<Rightarrow> None
      | Some (Inl e) \<Rightarrow> Some (Inl e)
      | Some (Inr (route, total_reward, d1, w1)) \<Rightarrow>
     (case replay d1 32 (fst w1) of
        Inl e \<Rightarrow> Some (Inl e)
      | Inr (d2, g2) \<Rightarrow>
          (let improved = (best_reward < Some total_reward);
               best_reward' = (if improved then Some total_reward else best_reward);
               best_route' = (if improved then Some route else best_route)
           in run_episodes (pred_numeral k) fuel sds cons best_route' best_reward' d2 (g2, snd w1)))))"
  by (simp add: numeral_eq_Suc)

lemmas learner_evaluation_rules =
  rl_search_def rl_init_def dqn_init_def initialize_state_def uniform_def
  random_unit_def draw_def choice_def act_def randrange_def apply_action_def
  calculate_reward_def find_stop_dict_def calculate_distance_def update_state_def
  to_vector_def weather_encoding_def remember_def truthy_def appended_def replay_def
  Let_def episode_loop_numeral run_episodes_numeral numeral_2_eq_2[symmetric]

text \<open>
  C9. \<open>_format_results\<close> is called once, at the end of \<open>RLOptimizer.optimize\<close>, on
  the best route and the best reward of the search, the stops and the buses of the
  request. Whenever the search ends without an exception, with a non-empty best route
  and a non-empty bus list, that call returns a result with exactly one route, whose
  \<open>bus_id\<close> is the id of the first bus of the list, however many buses follow and
  whatever their capacities; the route lists the best route's stops in order. When the
  best route is missing or empty, or the bus list is empty, the result is exactly
  \<open>{'routes': [], 'metrics': {}}\<close>. And every call of \<open>_format_results\<close> that returns
  a result on a non-empty route and a non-empty bus list, whatever its arguments,
  returns exactly one route with the \<open>bus_id\<close> of the first bus.
\<close>

theorem format_results_first_bus:
  assumes "rl_search fuel self sds cons w = Some (Inr (best_route, best_reward, d, w'))"
  shows "(\<forall>route bus more_buses.
            best_route = Some route \<and> route \<noteq> [] \<and> bds = bus # more_buses \<longrightarrow>
            (\<exists>res. format_results (episodes self) best_route sds bds (reward_value best_reward)
                      = Inr res
               \<and> map fr_bus_id (routes res) = [bd_id bus]
               \<and> map (map fs_id \<circ> fr_stops) (routes res) = [route]))
       \<and> (best_route = None \<or> best_route = Some [] \<or> bds = [] \<longrightarrow>
            format_results (episodes self) best_route sds bds (reward_value best_reward)
              = Inr empty_result)
       \<and> (\<forall>n route sds' bus more_buses reward res.
            route \<noteq> [] \<and> format_results n (Some route) sds' (bus # more_buses) reward = Inr res
            \<longrightarrow> map fr_bus_id (routes res) = [bd_id bus])"
proof (intro conjI allI impI)
  fix route bus more_buses
  assume a: "best_route = Some route \<and> route \<noteq> [] \<and> bds = bus # more_buses"
  with assms have known: "\<forall>i \<in> set route. \<exists>s \<in> set sds. sd_id s = i"
    using rl_search_known by blast
  from a have ne: "route \<noteq> []" by simp
  from format_results_returns[OF ne known, of "episodes self" bus more_buses
      "reward_value best_reward"]
  obtain res where
    r: "format_results (episodes self) (Some route) sds (bus # more_buses)
          (reward_value best_reward) = Inr res" by blast
  from format_results_returned[OF ne r] r a
  show "\<exists>res. format_results (episodes self) best_route sds bds (reward_value best_reward)
                      = Inr res
               \<and> map fr_bus_id (routes res) = [bd_id bus]
               \<and> map (map fs_id \<circ> fr_stops) (routes res) = [route]"
    by auto
next
  assume "best_route = None \<or> best_route = Some [] \<or> bds = []"
  then show "format_results (episodes self) best_route sds bds (reward_value best_reward)
      = Inr empty_result"
    by (rule format_results_empty)
next
  fix n route sds' bus more_buses reward res
  assume "route \<noteq> [] \<and> format_results n (Some route) sds' (bus # more_buses) reward = Inr res"
  then show "map fr_bus_id (routes res) = [bd_id bus]"
    using format_results_returned by blast
qed

theorem format_results_first_bus_witness:
  "\<exists>best_reward d w'.
     rl_search 3 (rl_init\<lparr>episodes := 2\<rparr>)
       [\<lparr>sd_id = 1, sd_lat = 0, sd_lng = 0, sd_students = Some 5\<rparr>,
        \<lparr>sd_id = 2, sd_lat = 3, sd_lng = 4, sd_students = None\<rparr>]
       \<lparr>max_time = None, max_distance = None\<rparr> ([0, 0, 1], [])
       = Some (Inr (Some [2, 1], best_reward, d, w'))
     \<and> (\<exists>res. format_results 2 (Some [2, 1])
           [\<lparr>sd_id = 1, sd_lat = 0, sd_lng = 0, sd_students = Some 5\<rparr>,
            \<lparr>sd_id = 2, sd_lat = 3, sd_lng = 4, sd_students = None\<rparr>]
           [\<lparr>bd_id = 7, bd_capacity = 1\<rparr>, \<lparr>bd_id = 8, bd_capacity = 99\<rparr>]
           (reward_value best_reward) = Inr res
         \<and> map fr_bus_id (routes res) = [7]
         \<and> map (map fs_id \<circ> fr_stops) (routes res) = [[2, 1]])"
proof -
  have "\<exists>best_reward d w'.
     rl_search 3 (rl_init\<lparr>episodes := 2\<rparr>)
       [\<lparr>sd_id = 1, sd_lat = 0, sd_lng = 0, sd_students = Some 5\<rparr>,
        \<lparr>sd_id = 2, sd_lat = 3, sd_lng = 4, sd_students = None\<rparr>]
       \<lparr>max_time = None, max_distance = None\<rparr> ([0, 0, 1], [])
       = Some (Inr (Some [2, 1], best_reward, d, w'))"
    by (simp add: learner_evaluation_rules)
  then obtain best_reward d w' where
    s: "rl_search 3 (rl_init\<lparr>episodes := 2\<rparr>)
       [\<lparr>sd_id = 1, sd_lat = 0, sd_lng = 0, sd_students = Some 5\<rparr>,
        \<lparr>sd_id = 2, sd_lat = 3, sd_lng = 4, sd_students = None\<rparr>]
       \<lparr>max_time = None, max_distance = None\<rparr> ([0, 0, 1], [])
       = Some (Inr (Some [2, 1], best_reward, d, w'))"
    by blast
  have e: "episodes (rl_init\<lparr>episodes := 2\<rparr>) = 2" by simp
  from format_results_first_bus [OF s,
      of "[\<lparr>bd_id = 7, bd_capacity = 1\<rparr>, \<lparr>bd_id = 8, bd_capacity = 99\<rparr>]"]
  have r: "\<exists>res. format_results 2 (Some [2, 1])
           [\<lparr>sd_id = 1, sd_lat = 0, sd_lng = 0, sd_students = Some 5\<rparr>,
            \<lparr>sd_id = 2, sd_lat = 3, sd_lng = 4, sd_students = None\<rparr>]
           [\<lparr>bd_id = 7, bd_capacity = 1\<rparr>, \<lparr>bd_id = 8, bd_capacity = 99\<rparr>]
           (reward_value best_reward) = Inr res
         \<and> map fr_bus_id (routes res) = [7]
         \<and> map (map fs_id \<circ> fr_stops) (routes res) = [[2, 1]]"
    unfolding e by simp
  show ?thesis
    by (rule exI[of _ best_reward], rule exI[of _ d], rule exI[of _ w'], rule conjI[OF s r])
qed

section \<open>The hybrid optimizer's choice\<close>

lemma score_less_iff:
  "score_less rl_score ga_score \<longleftrightarrow>
     (\<exists>x. rl_score = Some x \<and> (\<forall>y. ga_score = Some y \<longrightarrow> x < y))"
  by (cases rl_score; cases ga_score) (simp_all add: score_less_def)

lemma apply_heuristics_keeps:
  "routes (apply_heuristics r) = routes r" "metrics (apply_heuristics r) = metrics r"
  "algorithm_used (apply_heuristics r) = algorithm_used r"
  by (simp_all add: apply_heuristics_def)

text \<open>
  The object \<open>__init__\<close> builds runs \<open>GeneticAlgorithmOptimizer.optimize\<close> with a
  population of 30 and 50 generations; on a request of at most 20 stops its result,
  tagged, is the whole answer.
\<close>

lemma route_optimizer_small_request:
  assumes "length sds \<le> 20"
  shows "hybrid_optimize (route_optimizer_init rl) sds bds cons (g, a) =
     (case optimize (ga_init 30 50 (1 / 10) (8 / 10)) sds bds cons g of
        Inl e \<Rightarrow> Inl e
      | Inr (r, g') \<Rightarrow>
          Inr (apply_heuristics (r\<lparr>algorithm_used := Some ''genetic''\<rparr>), (g', a)))"
  using assms
  by (cases "optimize (ga_init 30 50 (1 / 10) (8 / 10)) sds bds cons g")
    (auto simp: hybrid_optimize_def route_optimizer_init_def)

text \<open>
  C4. \<open>RouteOptimizer.optimize\<close> always runs the genetic optimizer first (its exception
  is the call's exception). With at most 20 stops it returns the genetic result tagged
  \<open>genetic\<close> and the learner is not run (the world is the one the genetic optimizer
  left). With more than 20 stops it runs the learner next, on the world the genetic
  optimizer left, and returns (with the heuristics' annotations) the learner's result
  tagged \<open>rl\<close> exactly when the learner's \<open>total_distance_km\<close> is present and strictly
  below the genetic one (an absent genetic value counting as plus infinity), otherwise,
  ties included, the genetic result tagged \<open>genetic\<close>.
\<close>

theorem hybrid_optimize_selection:
  "(\<forall>e. ga_optimizer self sds bds cons w = Inl e \<longrightarrow>
        hybrid_optimize self sds bds cons w = Inl e)
   \<and> (\<forall>ga_result w1. ga_optimizer self sds bds cons w = Inr (ga_result, w1) \<longrightarrow>
        (length sds \<le> 20 \<longrightarrow>
           hybrid_optimize self sds bds cons w
             = Inr (apply_heuristics (ga_result\<lparr>algorithm_used := Some ''genetic''\<rparr>), w1))
        \<and> (20 < length sds \<longrightarrow>
             (\<forall>e. rl_optimizer self sds bds cons w1 = Inl e \<longrightarrow>
                  hybrid_optimize self sds bds cons w = Inl e)
             \<and> (\<forall>rl_result w2. rl_optimizer self sds bds cons w1 = Inr (rl_result, w2) \<longrightarrow>
                  (\<exists>res. hybrid_optimize self sds bds cons w = Inr (res, w2)
                     \<and> (algorithm_used res = Some ''rl'' \<longleftrightarrow>
                          (\<exists>x. metrics rl_result ''total_distance_km'' = Some x
                             \<and> (\<forall>y. metrics ga_result ''total_distance_km'' = Some y
                                    \<longrightarrow> x < y)))
                     \<and> (algorithm_used res = Some ''rl'' \<longrightarrow>
                          res = apply_heuristics (rl_result\<lparr>algorithm_used := Some ''rl''\<rparr>)
                          \<and> routes res = routes rl_result \<and> metrics res = metrics rl_result)
                     \<and> (algorithm_used res \<noteq> Some ''rl'' \<longrightarrow>
                          res = apply_heuristics (ga_result\<lparr>algorithm_used := Some ''genetic''\<rparr>)
                          \<and> algorithm_used res = Some ''genetic''
                          \<and> routes res = routes ga_result
                          \<and> metrics res = metrics ga_result)))))"
proof (intro conjI allI impI)
  fix e assume "ga_optimizer self sds bds cons w = Inl e"
  then show "hybrid_optimize self sds bds cons w = Inl e"
    by (simp add: hybrid_optimize_def)
next
  fix ga_result w1
  assume "ga_optimizer self sds bds cons w = Inr (ga_result, w1)" and "length sds \<le> 20"
  then show "hybrid_optimize self sds bds cons w
             = Inr (apply_heuristics (ga_result\<lparr>algorithm_used := Some ''genetic''\<rparr>), w1)"
    by (simp add: hybrid_optimize_def)
next
  fix ga_result w1 e
  assume "ga_optimizer self sds bds cons w = Inr (ga_result, w1)" and "20 < length sds"
    and "rl_optimizer self sds bds cons w1 = Inl e"
  then show "hybrid_optimize self sds bds cons w = Inl e"
    by (simp add: hybrid_optimize_def)
next
  fix ga_result w1 rl_result w2
  assume ga: "ga_optimizer self sds bds cons w = Inr (ga_result, w1)" and n: "20 < length sds"
    and rl: "rl_optimizer self sds bds cons w1 = Inr (rl_result, w2)"
  let ?beats = "\<exists>x. metrics rl_result ''total_distance_km'' = Some x
      \<and> (\<forall>y. metrics ga_result ''total_distance_km'' = Some y \<longrightarrow> x < y)"
  let ?rl = "apply_heuristics (rl_result\<lparr>algorithm_used := Some ''rl''\<rparr>)"
  let ?ga = "apply_heuristics (ga_result\<lparr>algorithm_used := Some ''genetic''\<rparr>)"
  have tag_rl: "algorithm_used ?rl = Some ''rl''"
    and tag_ga: "algorithm_used ?ga = Some ''genetic''"
    and keep_rl: "routes ?rl = routes rl_result" "metrics ?rl = metrics rl_result"
    and keep_ga: "routes ?ga = routes ga_result" "metrics ?ga = metrics ga_result"
    by (simp_all add: apply_heuristics_def)
  have differ: "Some ''genetic'' \<noteq> Some ''rl''" by simp
  show "\<exists>res. hybrid_optimize self sds bds cons w = Inr (res, w2)
     \<and> (algorithm_used res = Some ''rl'' \<longleftrightarrow> ?beats)
     \<and> (algorithm_used res = Some ''rl'' \<longrightarrow>
          res = ?rl \<and> routes res = routes rl_result \<and> metrics res = metrics rl_result)
     \<and> (algorithm_used res \<noteq> Some ''rl'' \<longrightarrow>
          res = ?ga \<and> algorithm_used res = Some ''genetic''
          \<and> routes res = routes ga_result \<and> metrics res = metrics ga_result)"
  proof (cases "score_less (metrics rl_result ''total_distance_km'')
      (metrics ga_result ''total_distance_km'')")
    case True
    then have run: "hybrid_optimize self sds bds cons w = Inr (?rl, w2)"
      using ga n rl by (simp add: hybrid_optimize_def Let_def)
    from True have beats: ?beats unfolding score_less_iff .
    show ?thesis
      by (rule exI[of _ ?rl]) (use run beats tag_rl keep_rl in blast)
  next
    case False
    then have run: "hybrid_optimize self sds bds cons w = Inr (?ga, w2)"
      using ga n rl by (simp add: hybrid_optimize_def Let_def)
    from False have beats: "\<not> ?beats" unfolding score_less_iff .
    have not_rl: "algorithm_used ?ga \<noteq> Some ''rl''"
      using tag_ga differ by metis
    show ?thesis
      by (rule exI[of _ ?ga]) (use run beats tag_ga not_rl keep_ga in blast)
  qed
qed

theorem hybrid_optimize_selection_witness:
  "(\<exists>res. hybrid_optimize fixed_optimizers
        (replicate 21 \<lparr>sd_id = 1, sd_lat = 0, sd_lng = 0, sd_students = None\<rparr>) []
        \<lparr>max_time = None, max_distance = None\<rparr> 0 = Inr (res, 11)
      \<and> algorithm_used res = Some ''rl''
      \<and> metrics res ''total_distance_km'' = Some 25)
   \<and> (\<exists>res. hybrid_optimize fixed_optimizers
        (replicate 20 \<lparr>sd_id = 1, sd_lat = 0, sd_lng = 0, sd_students = None\<rparr>) []
        \<lparr>max_time = None, max_distance = None\<rparr> 0 = Inr (res, 1)
      \<and> algorithm_used res = Some ''genetic''
      \<and> metrics res ''total_distance_km'' = Some 40)"
proof
  let ?sd = "\<lparr>sd_id = 1, sd_lat = 0, sd_lng = 0, sd_students = None\<rparr>"
  let ?c = "\<lparr>max_time = None, max_distance = None\<rparr>"
  let ?ga = "empty_result\<lparr>metrics := [''total_distance_km'' \<mapsto> 40]\<rparr>"
  let ?rl = "empty_result\<lparr>metrics := [''total_distance_km'' \<mapsto> 25]\<rparr>"
  have ga: "ga_optimizer fixed_optimizers sds [] ?c 0 = Inr (?ga, 1)" for sds
    by (simp add: fixed_optimizers_def)
  have rl: "rl_optimizer fixed_optimizers sds [] ?c 1 = Inr (?rl, 11)" for sds
    by (simp add: fixed_optimizers_def)
  have long: "20 < length (replicate 21 ?sd)" and short: "length (replicate 20 ?sd) \<le> 20"
    by simp_all
  from hybrid_optimize_selection [of fixed_optimizers "replicate 21 ?sd" "[]" ?c 0] ga long rl
  obtain res where res: "hybrid_optimize fixed_optimizers (replicate 21 ?sd) [] ?c 0 = Inr (res, 11)"
    "algorithm_used res = Some ''rl'' \<longleftrightarrow>
       (\<exists>x. metrics ?rl ''total_distance_km'' = Some x
          \<and> (\<forall>y. metrics ?ga ''total_distance_km'' = Some y \<longrightarrow> x < y))"
    "algorithm_used res = Some ''rl'' \<longrightarrow> metrics res = metrics ?rl"
    by blast
  from res(2) have tag: "algorithm_used res = Some ''rl''" by simp
  with res(3) have "metrics res ''total_distance_km'' = Some 25" by simp
  with res(1) tag show "\<exists>res. hybrid_optimize fixed_optimizers (replicate 21 ?sd) [] ?c 0 = Inr (res, 11)
      \<and> algorithm_used res = Some ''rl'' \<and> metrics res ''total_distance_km'' = Some 25"
    by blast
  from hybrid_optimize_selection [of fixed_optimizers "replicate 20 ?sd" "[]" ?c 0] ga short
  have "hybrid_optimize fixed_optimizers (replicate 20 ?sd) [] ?c 0
      = Inr (apply_heuristics (?ga\<lparr>algorithm_used := Some ''genetic''\<rparr>), 1)"
    by blast
  then show "\<exists>res. hybrid_optimize fixed_optimizers (replicate 20 ?sd) [] ?c 0 = Inr (res, 1)
      \<and> algorithm_used res = Some ''genetic'' \<and> metrics res ''total_distance_km'' = Some 40"
    by (simp add: apply_heuristics_def)
qed

section \<open>The exploration rate of the agent\<close>

lemma square_bounds:
  fixes y :: real
  assumes "l \<le> y \<and> y \<le> u" and "0 \<le> l" and "l' \<le> l * l" and "u * u \<le> u'"
  shows "l' \<le> y ^ 2 \<and> y ^ 2 \<le> u'"
proof -
  from assms have "l * l \<le> y * y" and "y * y \<le> u * u"
    by (simp_all add: mult_mono)
  with assms show ?thesis by (simp add: power2_eq_square)
qed

lemma product_bounds:
  fixes a b :: real
  assumes "l1 \<le> a \<and> a \<le> u1" and "l2 \<le> b \<and> b \<le> u2"
    and "0 \<le> l1" and "0 \<le> l2" and "l \<le> l1 * l2" and "u1 * u2 \<le> u"
  shows "l \<le> a * b \<and> a * b \<le> u"
proof -
  from assms have "l1 * l2 \<le> a * b" and "a * b \<le> u1 * u2"
    by (simp_all add: mult_mono)
  with assms show ?thesis by simp
qed

lemma decay_power_bounds:
  fixes x :: real
  assumes x: "x = 995 / 1000"
  shows "1 / 100 < x ^ 918 \<and> x ^ 919 < 1 / 100"
proof -
  have b1: "995000000000 / 1000000000000 \<le> x \<and> x \<le> 995000000000 / 1000000000000" using x by simp
  have b2: "990025000000 / 1000000000000 \<le> x ^ 2 \<and> x ^ 2 \<le> 990025000000 / 1000000000000"
    using square_bounds [OF b1, of "990025000000 / 1000000000000" "990025000000 / 1000000000000"] by simp
  have b4: "980149500625 / 1000000000000 \<le> x ^ 4 \<and> x ^ 4 \<le> 980149500625 / 1000000000000"
    using square_bounds [OF b2, of "980149500625 / 1000000000000" "980149500625 / 1000000000000"] by simp
  have b8: "960693043575 / 1000000000000 \<le> x ^ 8 \<and> x ^ 8 \<le> 960693043576 / 1000000000000"
    using square_bounds [OF b4, of "960693043575 / 1000000000000" "960693043576 / 1000000000000"] by simp
  have b16: "922931123973 / 1000000000000 \<le> x ^ 16 \<and> x ^ 16 \<le> 922931123976 / 1000000000000"
    using square_bounds [OF b8, of "922931123973 / 1000000000000" "922931123976 / 1000000000000"] by simp
  have b32: "851801859598 / 1000000000000 \<le> x ^ 32 \<and> x ^ 32 \<le> 851801859604 / 1000000000000"
    using square_bounds [OF b16, of "851801859598 / 1000000000000" "851801859604 / 1000000000000"] by simp
  have b64: "725566408014 / 1000000000000 \<le> x ^ 64 \<and> x ^ 64 \<le> 725566408025 / 1000000000000"
    using square_bounds [OF b32, of "725566408014 / 1000000000000" "725566408025 / 1000000000000"] by simp
  have b128: "526446612438 / 1000000000000 \<le> x ^ 128 \<and> x ^ 128 \<le> 526446612455 / 1000000000000"
    using square_bounds [OF b64, of "526446612438 / 1000000000000" "526446612455 / 1000000000000"] by simp
  have b256: "277146035747 / 1000000000000 \<le> x ^ 256 \<and> x ^ 256 \<le> 277146035766 / 1000000000000"
    using square_bounds [OF b128, of "277146035747 / 1000000000000" "277146035766 / 1000000000000"] by simp
  have b512: "76809925130 / 1000000000000 \<le> x ^ 512 \<and> x ^ 512 \<le> 76809925141 / 1000000000000"
    using square_bounds [OF b256, of "76809925130 / 1000000000000" "76809925141 / 1000000000000"] by simp
  have c768: "21287566255 / 1000000000000 \<le> x ^ 768 \<and> x ^ 768 \<le> 21287566261 / 1000000000000"
    using product_bounds [OF b512 b256, of "21287566255 / 1000000000000" "21287566261 / 1000000000000"]
    by (simp add: power_add [symmetric])
  have c896: "11206767141 / 1000000000000 \<le> x ^ 896 \<and> x ^ 896 \<le> 11206767146 / 1000000000000"
    using product_bounds [OF c768 b128, of "11206767141 / 1000000000000" "11206767146 / 1000000000000"]
    by (simp add: power_add [symmetric])
  have c912: "10343074193 / 1000000000000 \<le> x ^ 912 \<and> x ^ 912 \<le> 10343074199 / 1000000000000"
    using product_bounds [OF c896 b16, of "10343074193 / 1000000000000" "10343074199 / 1000000000000"]
    by (simp add: power_add [symmetric])
  have c916: "10137759005 / 1000000000000 \<le> x ^ 916 \<and> x ^ 916 \<le> 10137759012 / 1000000000000"
    using product_bounds [OF c912 b4, of "10137759005 / 1000000000000" "10137759012 / 1000000000000"]
    by (simp add: power_add [symmetric])
  have c918: "10036634858 / 1000000000000 \<le> x ^ 918 \<and> x ^ 918 \<le> 10036634866 / 1000000000000"
    using product_bounds [OF c916 b2, of "10036634858 / 1000000000000" "10036634866 / 1000000000000"]
    by (simp add: power_add [symmetric])
  have "x ^ 919 = x ^ 918 * x" using power_Suc2 [of x 918] by simp
  also have "\<dots> \<le> (10036634866 / 1000000000000) * x"
    using c918 b1 by (intro mult_right_mono) simp_all
  also have "\<dots> < 1 / 100" unfolding x by simp
  finally have "x ^ 919 < 1 / 100" .
  moreover have "1 / 100 < x ^ 918" using c918 by simp
  ultimately show ?thesis by simp
qed

lemma sample_from_subset: "set (fst (sample_from xs k g)) \<subseteq> set xs"
proof (induction xs k g rule: sample_from.induct)
  case (1 xs g)
  then show ?case by simp
next
  case (2 k g)
  then show ?case by simp
next
  case (3 x xs k g)
  obtain n g' where dr: "draw g = (n, g')" by (cases "draw g")
  define i where "i = n mod length (x # xs)"
  define rest where "rest = take i (x # xs) @ drop (Suc i) (x # xs)"
  have i: "i < length (x # xs)" unfolding i_def by simp
  have rest: "set rest \<subseteq> set (x # xs)"
    unfolding rest_def using set_take_subset[of i "x # xs"] set_drop_subset[of "Suc i" "x # xs"]
    by auto
  obtain ys g'' where sf: "sample_from rest k g' = (ys, g'')" by (cases "sample_from rest k g'")
  have ih: "set ys \<subseteq> set rest"
    using "3.IH"[OF dr[symmetric] i_def] sf unfolding rest_def[symmetric] by simp
  have res: "sample_from (x # xs) (Suc k) g = ((x # xs) ! i # ys, g'')"
    using dr sf unfolding rest_def i_def by (simp add: Let_def)
  have mem: "(x # xs) ! i \<in> set (x # xs)" using i by (rule nth_mem)
  show ?case unfolding res using ih rest mem by auto
qed

lemma row_of_length: "table_ok n q \<Longrightarrow> length (row_of n q k) = n"
  by (auto simp: table_ok_def row_of_def split: option.splits)

lemma table_ok_update: "table_ok n q \<Longrightarrow> length row = n \<Longrightarrow> table_ok n (q(k \<mapsto> row))"
  by (simp add: table_ok_def)

lemma train_one_ok:
  assumes q: "table_ok n q" and n: "0 < n" and a: "exp_action e < n"
  shows "\<exists>q'. train_one n gam q e = Inr q' \<and> table_ok n q'"
proof -
  define sk where "sk = state_key (exp_state e)"
  define nk where "nk = state_key (exp_next_state e)"
  define q1 where "q1 = q(sk \<mapsto> row_of n q sk)"
  define q2 where "q2 = q1(nk \<mapsto> row_of n q1 nk)"
  have q1: "table_ok n q1" unfolding q1_def using q by (simp add: table_ok_update row_of_length)
  have q2: "table_ok n q2" unfolding q2_def using q1 by (simp add: table_ok_update row_of_length)
  have l1: "length (row_of n q2 nk) = n" and l2: "length (row_of n q2 sk) = n"
    using q2 by (simp_all add: row_of_length)
  from l1 n have ne: "row_of n q2 nk \<noteq> []" by auto
  define target where "target = (if exp_done e then exp_reward e
      else exp_reward e + gam * Max (set (row_of n q2 nk)))"
  have "train_one n gam q e = Inr (q2(sk \<mapsto> (row_of n q2 sk)[exp_action e := target]))"
    using ne l2 a
    by (simp add: train_one_def Let_def sk_def[symmetric] nk_def[symmetric] q1_def[symmetric]
        q2_def[symmetric] target_def)
  moreover have "table_ok n (q2(sk \<mapsto> (row_of n q2 sk)[exp_action e := target]))"
    using q2 l2 by (simp add: table_ok_update)
  ultimately show ?thesis by blast
qed

lemma train_ok:
  "table_ok n q \<Longrightarrow> 0 < n \<Longrightarrow> \<forall>e \<in> set es. exp_action e < n \<Longrightarrow>
     \<exists>q'. train n gam q es = Inr q' \<and> table_ok n q'"
proof (induction es arbitrary: q)
  case Nil
  then show ?case by simp
next
  case (Cons e es)
  from train_one_ok[OF Cons.prems(1,2), of e gam] Cons.prems(3)
  obtain q1 where q1: "train_one n gam q e = Inr q1" "table_ok n q1" by auto
  from Cons.IH[OF q1(2) Cons.prems(2)] Cons.prems(3)
  obtain q' where "train n gam q1 es = Inr q'" "table_ok n q'" by auto
  with q1 show ?case by simp
qed

lemma replay_trains:
  assumes ok: "agent_ok d" and len: "batch_size \<le> length (memory d)"
  shows "\<exists>d' g'. replay d batch_size g = Inr (d', g') \<and> agent_ok d'
     \<and> memory d' = memory d
     \<and> epsilon d' = (if 1 / 100 < epsilon d then epsilon d * (995 / 1000) else epsilon d)"
proof -
  obtain minibatch g' where sf: "sample_from (memory d) batch_size g = (minibatch, g')"
    by (cases "sample_from (memory d) batch_size g")
  have "set minibatch \<subseteq> set (memory d)"
    using sample_from_subset[of "memory d" batch_size g] sf by simp
  with ok have valid: "\<forall>e \<in> set minibatch. exp_action e < action_size d"
    by (auto simp: agent_ok_def)
  from ok have "table_ok (action_size d) (q_table d)" "0 < action_size d"
    by (simp_all add: agent_ok_def)
  from train_ok[OF this valid, of "gamma d"] obtain q' where
    q': "train (action_size d) (gamma d) (q_table d) minibatch = Inr q'"
      "table_ok (action_size d) q'" by blast
  let ?d' = "d\<lparr>q_table := q',
      epsilon := (if epsilon_min d < epsilon d then epsilon d * epsilon_decay d else epsilon d)\<rparr>"
  have run: "replay d batch_size g = Inr (?d', g')"
    using len sf q' by (simp add: replay_def sample_def)
  have "agent_ok ?d'" using ok q'(2) by (simp add: agent_ok_def)
  moreover have "epsilon ?d' = (if 1 / 100 < epsilon d then epsilon d * (995 / 1000) else epsilon d)"
    using ok by (simp add: agent_ok_def)
  ultimately show ?thesis using run by (intro exI[of _ ?d'] exI[of _ g']) simp
qed

lemma replays_decay:
  "agent_ok d \<Longrightarrow> 32 \<le> length (memory d) \<Longrightarrow> epsilon d = (995 / 1000) ^ k \<Longrightarrow>
   k + n \<le> 919 \<Longrightarrow>
     \<exists>d' g'. agent_run d g (replicate n (Replay 32)) = Inr (d', g')
       \<and> epsilon d' = (995 / 1000) ^ (k + n)"
proof (induction n arbitrary: d g k)
  case 0
  then show ?case by simp
next
  case (Suc n)
  from replay_trains[OF Suc.prems(1,2), of g] obtain d1 g1 where
    r: "replay d 32 g = Inr (d1, g1)" "agent_ok d1" "memory d1 = memory d"
      "epsilon d1 = (if 1 / 100 < epsilon d then epsilon d * (995 / 1000) else epsilon d)"
    by blast
  from Suc.prems(4) have k: "k \<le> 918" by simp
  have a: "(995 / 1000 :: real) ^ 918 \<le> (995 / 1000) ^ k"
    using k by (intro power_decreasing) simp_all
  have b: "1 / 100 < (995 / 1000 :: real) ^ 918"
    using decay_power_bounds[of "995 / 1000"] by simp
  have "1 / 100 < (995 / 1000 :: real) ^ k" by (rule less_le_trans[OF b a])
  then have gt: "1 / 100 < epsilon d" by (simp only: Suc.prems(3))
  have "epsilon d1 = epsilon d * (995 / 1000)" using r(4) gt by (simp only: if_True)
  also have "\<dots> = (995 / 1000) ^ k * (995 / 1000)" by (simp only: Suc.prems(3))
  also have "\<dots> = (995 / 1000) ^ Suc k" by (simp only: power_Suc2)
  finally have e1: "epsilon d1 = (995 / 1000) ^ Suc k" .
  from Suc.prems(2) r(3) have m1: "32 \<le> length (memory d1)" by simp
  from Suc.prems(4) have "Suc k + n \<le> 919" by simp
  from Suc.IH[OF r(2) m1 e1 this, of g1] obtain d' g' where
    "agent_run d1 g1 (replicate n (Replay 32)) = Inr (d', g')"
    "epsilon d' = (995 / 1000) ^ (Suc k + n)" by blast
  with r(1) show ?case by simp
qed

lemma remember_ok:
  assumes "agent_ok d" and "exp_action e < action_size d"
  shows "agent_ok (remember d e)"
    and "length (memory (remember d e)) = min 2000 (Suc (length (memory d)))"
    and "epsilon (remember d e) = epsilon d" and "action_size (remember d e) = action_size d"
proof -
  have "set (drop m (memory d @ [e])) \<subseteq> set (memory d) \<union> {e}" for m
    using set_drop_subset[of m "memory d @ [e]"] by auto
  with assms show "agent_ok (remember d e)"
    by (auto simp: agent_ok_def remember_def Let_def)
  show "length (memory (remember d e)) = min 2000 (Suc (length (memory d)))"
    by (simp add: remember_def Let_def)
  show "epsilon (remember d e) = epsilon d" "action_size (remember d e) = action_size d"
    by (simp_all add: remember_def)
qed

lemma remembers_run:
  "agent_ok d \<Longrightarrow> \<forall>e \<in> set es. exp_action e < action_size d \<Longrightarrow>
     \<exists>d'. agent_run d g (map Remember es @ ops) = agent_run d' g ops \<and> agent_ok d'
       \<and> min 2000 (length (memory d) + length es) \<le> length (memory d')
       \<and> epsilon d' = epsilon d"
proof (induction es arbitrary: d)
  case Nil
  then show ?case by auto
next
  case (Cons e es)
  from Cons.prems have e: "exp_action e < action_size d" by simp
  note r = remember_ok[OF Cons.prems(1) e]
  from Cons.prems(2) r(4) have "\<forall>x \<in> set es. exp_action x < action_size (remember d e)" by simp
  from Cons.IH[OF r(1) this] obtain d' where
    "agent_run (remember d e) g (map Remember es @ ops) = agent_run d' g ops" "agent_ok d'"
    "min 2000 (length (memory (remember d e)) + length es) \<le> length (memory d')"
    "epsilon d' = epsilon (remember d e)" by blast
  with r(2,3) show ?case by (intro exI[of _ d']) auto
qed

text \<open>
  What does hold: on every sequence of calls, epsilon stays above \<open>0.01 * 0.995\<close>.
\<close>

lemma replay_epsilon:
  assumes "replay d n g = Inr (d', g')"
  shows "epsilon_min d' = epsilon_min d \<and> epsilon_decay d' = epsilon_decay d
    \<and> (epsilon d' = epsilon d
        \<or> (epsilon_min d < epsilon d \<and> epsilon d' = epsilon d * epsilon_decay d))"
  using assms by (auto simp: replay_def split: if_splits sum.splits prod.splits)

lemma replay_epsilon_above:
  assumes "replay d n g = Inr (d', g')"
    and "epsilon_min d = 1 / 100" and "epsilon_decay d = 995 / 1000"
    and "995 / 100000 < epsilon d"
  shows "995 / 100000 < epsilon d'"
proof -
  from replay_epsilon[OF assms(1)] assms(2,3) have
    "epsilon d' = epsilon d \<or> (1 / 100 < epsilon d \<and> epsilon d' = epsilon d * (995 / 1000))"
    by simp
  then show ?thesis using assms(4) by auto
qed

lemma agent_run_epsilon_above:
  "agent_run d g ops = Inr (d', g') \<Longrightarrow> epsilon_min d = 1 / 100 \<Longrightarrow>
   epsilon_decay d = 995 / 1000 \<Longrightarrow> 995 / 100000 < epsilon d \<Longrightarrow> 995 / 100000 < epsilon d'"
proof (induction d g ops rule: agent_run.induct)
  case (1 d g)
  then show ?case by simp
next
  case (2 d g e ops)
  then show ?case by (simp add: remember_def)
next
  case (3 d g n ops)
  from "3.prems"(1) obtain d1 g1 where r: "replay d n g = Inr (d1, g1)"
    and rest: "agent_run d1 g1 ops = Inr (d', g')"
    by (auto split: sum.splits)
  from replay_epsilon[OF r] "3.prems"(2,3) have c: "epsilon_min d1 = 1 / 100"
    "epsilon_decay d1 = 995 / 1000" by simp_all
  from replay_epsilon_above[OF r "3.prems"(2,3,4)] have "995 / 100000 < epsilon d1" .
  from "3.IH"[OF r refl rest c this] show ?case .
qed

text \<open>
  C8. Epsilon starts at 1.0 and each replay that trains multiplies it by 0.995, but it
  is not floored at \<open>epsilon_min = 0.01\<close>: after at least 32 \<open>remember\<close> calls with
  actions in range and 919 \<open>replay\<close> calls epsilon is \<open>0.995 ^ 919\<close>, below 0.01. The
  test \<open>epsilon > epsilon_min\<close> comes before the multiplication and the product is
  not clamped.
\<close>

theorem epsilon_falls_below_epsilon_min:
  assumes "\<forall>e \<in> set es. exp_action e < 10" and "32 \<le> length es"
  shows "\<exists>d g'. agent_run (dqn_init 24 10) g (map Remember es @ replicate 919 (Replay 32))
            = Inr (d, g')
     \<and> epsilon d = (995 / 1000) ^ 919 \<and> epsilon d < 1 / 100"
proof -
  have ok: "agent_ok (dqn_init 24 10)" by (simp add: agent_ok_def dqn_init_def table_ok_def)
  from assms(1) have "\<forall>e \<in> set es. exp_action e < action_size (dqn_init 24 10)"
    by (simp add: dqn_init_def)
  from remembers_run[OF ok this, of g "replicate 919 (Replay 32)"] obtain d1 where
    d1: "agent_run (dqn_init 24 10) g (map Remember es @ replicate 919 (Replay 32))
      = agent_run d1 g (replicate 919 (Replay 32))" "agent_ok d1"
      "min 2000 (length (memory (dqn_init 24 10)) + length es) \<le> length (memory d1)"
      "epsilon d1 = epsilon (dqn_init 24 10)" by blast
  from d1(3) assms(2) have m: "32 \<le> length (memory d1)" by (simp add: dqn_init_def)
  from d1(4) have e: "epsilon d1 = (995 / 1000) ^ 0" by (simp add: dqn_init_def)
  from replays_decay[OF d1(2) m e, of 919 g] obtain d g' where
    r: "agent_run d1 g (replicate 919 (Replay 32)) = Inr (d, g')"
      "epsilon d = (995 / 1000) ^ (0 + 919)" by auto
  have "(995 / 1000 :: real) ^ 919 < 1 / 100"
    using decay_power_bounds[of "995 / 1000"] by simp
  with r d1(1) show ?thesis by auto
qed

theorem epsilon_falls_below_epsilon_min_witness:
  "\<exists>d g'. agent_run (dqn_init 24 10) []
       (map Remember (replicate 32
          \<lparr>exp_state = [0], exp_action = 0, exp_reward = 1, exp_next_state = [0],
           exp_done = True\<rparr>)
        @ replicate 919 (Replay 32)) = Inr (d, g')
     \<and> epsilon d = (995 / 1000) ^ 919 \<and> epsilon d < epsilon_min (dqn_init 24 10)"
  using epsilon_falls_below_epsilon_min [of "replicate 32
      \<lparr>exp_state = [0], exp_action = 0, exp_reward = 1, exp_next_state = [0], exp_done = True\<rparr>"
      "[]"]
  by (simp add: dqn_init_def)

end
